(* ===== verification/Rtun_Prelude.thy ===== *)
theory Rtun_Prelude
  imports Main "HOL-Library.Word"
begin

text \<open>
  Shared vocabulary of the development: machine-integer types, the Rust \<open>Result\<close> with panics as
  a third outcome, \<open>Poll\<close>, big-endian byte codecs, IP and socket addresses of \<open>std::net\<close>, the
  string operations of \<open>std\<close> the sources call, and two generic contracts that several components
  instantiate: a transition system with an inductive invariant and a self-delimiting codec.
\<close>

named_theorems codec_simps \<open>evaluation rules of byte codecs\<close>
named_theorems addr_simps \<open>rewrite rules of addresses\<close>
named_theorems inv_intros \<open>preservation rules of component invariants\<close>

section \<open>Machine integers and outcomes\<close>

type_synonym byte = "8 word"
type_synonym u16 = "16 word"
type_synonym u32 = "32 word"
type_synonym u64 = "64 word"
type_synonym bytes = "byte list"

text \<open>
  A Rust function returns \<open>Ok\<close>, returns \<open>Err\<close> or panics. A panic (an \<open>unwrap\<close> on an error, an
  index out of range, \<open>unimplemented!\<close>, a checked-arithmetic overflow) is the third constructor,
  so that every way a function can end is a value of the model.
\<close>

datatype ('a, 'e) result = Ok 'a | Err 'e | Panic string

fun map_result :: "('a \<Rightarrow> 'b) \<Rightarrow> ('a, 'e) result \<Rightarrow> ('b, 'e) result" where
  "map_result f (Ok a) = Ok (f a)"
| "map_result f (Err e) = Err e"
| "map_result f (Panic m) = Panic m"

fun is_panic :: "('a, 'e) result \<Rightarrow> bool" where
  "is_panic (Panic _) = True"
| "is_panic (Ok _) = False"
| "is_panic (Err _) = False"

datatype 'a poll = Pending | Ready 'a

datatype io_kind = WouldBlock | WriteZero | InvalidData | InvalidInput | UnexpectedEof
  | TimedOut | Other

text \<open>An \<open>io::Error\<close>: its kind and its message.\<close>

datatype io_error = IoError (err_kind: io_kind) (err_msg: string)

type_synonym 'a io_result = "('a, io_error) result"

section \<open>Big-endian byte strings\<close>

fun be_nat :: "bytes \<Rightarrow> nat" where
  "be_nat [] = 0"
| "be_nat (b # bs) = unat b * 256 ^ length bs + be_nat bs"

fun be_bytes :: "nat \<Rightarrow> nat \<Rightarrow> bytes" where
  "be_bytes 0 v = []"
| "be_bytes (Suc n) v = of_nat (v div 256 ^ n) # be_bytes n v"

lemma length_be_bytes [simp]: "length (be_bytes n v) = n"
  by (induction n) auto

lemma unat_byte_less: "unat (b :: byte) < 256"
  using unsigned_less [of b] by simp

lemma be_nat_less: "be_nat bs < 256 ^ length bs"
proof (induction bs)
  case (Cons b bs)
  have "unat b + 1 \<le> 256" using unat_byte_less [of b] by simp
  then have "(unat b + 1) * 256 ^ length bs \<le> 256 * 256 ^ length bs"
    by (rule mult_le_mono1)
  then have "unat b * 256 ^ length bs + 256 ^ length bs \<le> 256 * 256 ^ length bs"
    by (simp only: distrib_right mult_1)
  with Cons have "unat b * 256 ^ length bs + be_nat bs < 256 * 256 ^ length bs"
    by linarith
  then show ?case by simp
qed simp

lemma be_nat_be_bytes [simp]: "be_nat (be_bytes n v) = v mod 256 ^ n"
proof (induction n)
  case (Suc n)
  have "v mod 256 ^ Suc n = 256 ^ n * (v div 256 ^ n mod 256) + v mod 256 ^ n"
    by (metis mod_mult2_eq power_Suc2)
  with Suc show ?case by (simp add: unat_of_nat)
qed simp

lemma be_bytes_add: "n \<le> m \<Longrightarrow> be_bytes n (k * 256 ^ m + v) = be_bytes n v"
proof (induction n)
  case (Suc n)
  then obtain j where m: "m = Suc n + j" using le_Suc_ex by blast
  have "k * 256 ^ m + v = (k * 256 ^ Suc j) * 256 ^ n + v"
    by (simp add: m power_add)
  then have "(k * 256 ^ m + v) div 256 ^ n = k * 256 ^ Suc j + v div 256 ^ n"
    by (simp only: div_mult_self3 power_not_zero) simp
  then have "(k * 256 ^ m + v) div 256 ^ n mod 256 = v div 256 ^ n mod 256"
    by (simp add: mult.left_commute [of k])
  then have "(of_nat ((k * 256 ^ m + v) div 256 ^ n) :: byte) = of_nat (v div 256 ^ n)"
    by (simp only: word_of_nat_eq_iff take_bit_eq_mod) simp
  with Suc show ?case by simp
qed simp

lemma be_bytes_be_nat [simp]: "be_bytes (length bs) (be_nat bs) = bs"
proof (induction bs)
  case (Cons b bs)
  have "be_nat (b # bs) div 256 ^ length bs = unat b"
    using be_nat_less [of bs] by simp
  moreover have "be_bytes (length bs) (be_nat (b # bs)) = be_bytes (length bs) (be_nat bs)"
    by (simp add: be_bytes_add)
  ultimately show ?case using Cons by simp
qed simp

text \<open>\<open>to_be_bytes\<close> and \<open>from_be_bytes\<close> of \<open>u16\<close> and \<open>u32\<close>.\<close>

definition u16_to_be_bytes :: "u16 \<Rightarrow> bytes" where
  "u16_to_be_bytes v = be_bytes 2 (unat v)"

definition u16_from_be_bytes :: "bytes \<Rightarrow> u16" where
  "u16_from_be_bytes bs = of_nat (be_nat bs)"

definition u32_to_be_bytes :: "u32 \<Rightarrow> bytes" where
  "u32_to_be_bytes v = be_bytes 4 (unat v)"

definition u32_from_be_bytes :: "bytes \<Rightarrow> u32" where
  "u32_from_be_bytes bs = of_nat (be_nat bs)"

lemma be_bytes_2 [codec_simps]: "be_bytes 2 v = [of_nat (v div 256), of_nat v]"
  by (simp add: numeral_2_eq_2)

lemma be_bytes_4 [codec_simps]:
  "be_bytes 4 v = [of_nat (v div 16777216), of_nat (v div 65536), of_nat (v div 256), of_nat v]"
proof -
  have "be_bytes 4 v = be_bytes (Suc (Suc (Suc (Suc 0)))) v"
    by (simp only: numeral_eq_Suc pred_numeral_simps BitM.simps)
  then show ?thesis by (simp add: power_Suc)
qed

lemma length_u16_to_be_bytes [simp]: "length (u16_to_be_bytes v) = 2"
  by (simp add: u16_to_be_bytes_def)

lemma length_u32_to_be_bytes [simp]: "length (u32_to_be_bytes v) = 4"
  by (simp add: u32_to_be_bytes_def)

lemma u16_from_to_be [simp]: "u16_from_be_bytes (u16_to_be_bytes v) = v"
proof -
  have "unat v < 65536" using unsigned_less [of v] by simp
  then show ?thesis by (simp add: u16_from_be_bytes_def u16_to_be_bytes_def)
qed

lemma u32_from_to_be [simp]: "u32_from_be_bytes (u32_to_be_bytes v) = v"
proof -
  have "unat v < 4294967296" using unsigned_less [of v] by simp
  then show ?thesis by (simp add: u32_from_be_bytes_def u32_to_be_bytes_def)
qed

lemma unat_u16_from_be: "length bs = 2 \<Longrightarrow> unat (u16_from_be_bytes bs) = be_nat bs"
  using be_nat_less [of bs] by (simp add: u16_from_be_bytes_def unat_of_nat)

lemma unat_u32_from_be: "length bs = 4 \<Longrightarrow> unat (u32_from_be_bytes bs) = be_nat bs"
  using be_nat_less [of bs] by (simp add: u32_from_be_bytes_def unat_of_nat)

lemma u16_to_from_be [simp]: "length bs = 2 \<Longrightarrow> u16_to_be_bytes (u16_from_be_bytes bs) = bs"
  using be_bytes_be_nat [of bs] by (simp add: u16_to_be_bytes_def unat_u16_from_be)

lemma u32_to_from_be [simp]: "length bs = 4 \<Longrightarrow> u32_to_be_bytes (u32_from_be_bytes bs) = bs"
  using be_bytes_be_nat [of bs] by (simp add: u32_to_be_bytes_def unat_u32_from_be)

lemma u32_last_byte: "u32_to_be_bytes v ! 3 = of_nat (unat v)"
  by (simp add: u32_to_be_bytes_def codec_simps)

section \<open>Addresses of \<open>std::net\<close>\<close>

datatype ipv4_addr = Ipv4Addr byte byte byte byte

text \<open>An IPv6 address is its eight 16-bit segments.\<close>

datatype ipv6_addr = Ipv6Addr u16 u16 u16 u16 u16 u16 u16 u16

datatype ip_addr = V4Addr ipv4_addr | V6Addr ipv6_addr

record socket_addr_v4 =
  v4_ip :: ipv4_addr
  v4_port :: u16

record socket_addr_v6 =
  v6_ip :: ipv6_addr
  v6_port :: u16
  v6_flowinfo :: u32
  v6_scope_id :: u32

datatype socket_addr = V4 socket_addr_v4 | V6 socket_addr_v6

fun sa_port :: "socket_addr \<Rightarrow> u16" where
  "sa_port (V4 a) = v4_port a"
| "sa_port (V6 a) = v6_port a"

fun ipv4_octets :: "ipv4_addr \<Rightarrow> bytes" where
  "ipv4_octets (Ipv4Addr a b c d) = [a, b, c, d]"

definition ipv4_to_bits :: "ipv4_addr \<Rightarrow> u32" where
  "ipv4_to_bits a = u32_from_be_bytes (ipv4_octets a)"

definition ipv4_from_bits :: "u32 \<Rightarrow> ipv4_addr" where
  "ipv4_from_bits v = (let o4 = u32_to_be_bytes v in Ipv4Addr (o4 ! 0) (o4 ! 1) (o4 ! 2) (o4 ! 3))"

fun ipv6_segments :: "ipv6_addr \<Rightarrow> u16 list" where
  "ipv6_segments (Ipv6Addr a b c d e f g h) = [a, b, c, d, e, f, g, h]"

definition ipv6_octets :: "ipv6_addr \<Rightarrow> bytes" where
  "ipv6_octets a = concat (map u16_to_be_bytes (ipv6_segments a))"

lemma length_ipv4_octets [simp]: "length (ipv4_octets a) = 4"
  by (cases a) simp

lemma length_ipv6_octets [simp]: "length (ipv6_octets a) = 16"
  by (cases a) (simp add: ipv6_octets_def)

lemma list4_nth: "length xs = 4 \<Longrightarrow> [xs ! 0, xs ! 1, xs ! 2, xs ! 3] = xs"
  by (auto simp: numeral_eq_Suc length_Suc_conv)

lemma ipv4_octets_from_bits: "ipv4_octets (ipv4_from_bits v) = u32_to_be_bytes v"
  using list4_nth [of "u32_to_be_bytes v"] by (simp add: ipv4_from_bits_def Let_def)

lemma ipv4_bits_roundtrip [simp, addr_simps]: "ipv4_to_bits (ipv4_from_bits v) = v"
  by (simp add: ipv4_to_bits_def ipv4_octets_from_bits)

lemma ipv4_from_to_bits [simp, addr_simps]: "ipv4_from_bits (ipv4_to_bits a) = a"
  by (cases a) (simp add: ipv4_from_bits_def ipv4_to_bits_def)

lemma ipv4_from_bits_inject: "ipv4_from_bits v = ipv4_from_bits w \<longleftrightarrow> v = w"
  by (metis ipv4_bits_roundtrip)

section \<open>Strings\<close>

text \<open>
  A Rust \<open>str\<close> is its UTF-8 bytes; a \<open>char\<close> of the model is one byte. \<open>str_contains\<close> is
  \<open>str::contains\<close>, \<open>str_bytes\<close> is \<open>as_bytes\<close>.
\<close>

fun str_contains :: "string \<Rightarrow> string \<Rightarrow> bool" where
  "str_contains [] pat = (pat = [])"
| "str_contains (c # cs) pat = (take (length pat) (c # cs) = pat \<or> str_contains cs pat)"

lemma str_contains_iff: "str_contains s pat \<longleftrightarrow> (\<exists>u v. s = u @ pat @ v)"
proof (induction s)
  case (Cons c cs)
  have "take (length pat) (c # cs) = pat \<longleftrightarrow> (\<exists>v. c # cs = pat @ v)"
    by (metis append_eq_conv_conj append_take_drop_id)
  moreover have "(\<exists>u v. c # cs = u @ pat @ v) \<longleftrightarrow>
      (\<exists>v. c # cs = pat @ v) \<or> (\<exists>u v. cs = u @ pat @ v)"
    by (metis append_Cons append_Nil list.sel(3) tl_append2 append_is_Nil_conv list.inject neq_Nil_conv)
  ultimately show ?case using Cons.IH by simp
qed simp

lemma str_contains_empty [simp]: "str_contains s []"
  by (cases s) auto

lemma str_contains_refl [simp]: "str_contains s s"
  by (cases s) auto

lemma str_contains_append: "str_contains (u @ s @ v) s"
  using str_contains_iff by blast

definition str_bytes :: "string \<Rightarrow> bytes" where
  "str_bytes s = map (\<lambda>c. of_nat (of_char c)) s"

definition bytes_str :: "bytes \<Rightarrow> string" where
  "bytes_str bs = map (\<lambda>b. char_of (unat b)) bs"

lemma length_str_bytes [simp]: "length (str_bytes s) = length s"
  by (simp add: str_bytes_def)

lemma bytes_str_str_bytes [simp]: "bytes_str (str_bytes s) = s"
proof -
  have "char_of (unat (of_nat (of_char c) :: byte)) = c" for c
    by (simp add: unat_of_nat)
  then show ?thesis by (simp add: bytes_str_def str_bytes_def comp_def)
qed

lemma bytes_str_take [simp]: "bytes_str (take n bs) = take n (bytes_str bs)"
  by (simp add: bytes_str_def take_map)

section \<open>Transition systems\<close>

text \<open>
  Reachable states of a step relation with labels, and executions as lists of labels. A component
  whose state changes by interleaved steps gives its steps as a relation; the locale proves once
  that an inductive invariant holds in every reachable state and along every execution.
\<close>

inductive reachable :: "'s \<Rightarrow> ('s \<Rightarrow> 'l \<Rightarrow> 's \<Rightarrow> bool) \<Rightarrow> 's \<Rightarrow> bool" for s0 step where
  reach_init: "reachable s0 step s0"
| reach_step: "reachable s0 step s \<Longrightarrow> step s l t \<Longrightarrow> reachable s0 step t"

inductive exec_steps :: "('s \<Rightarrow> 'l \<Rightarrow> 's \<Rightarrow> bool) \<Rightarrow> 's \<Rightarrow> 'l list \<Rightarrow> 's \<Rightarrow> bool" for step where
  exec_nil: "exec_steps step s [] s"
| exec_cons: "step s l t \<Longrightarrow> exec_steps step t ls u \<Longrightarrow> exec_steps step s (l # ls) u"

inductive_simps exec_nil_iff [simp]: "exec_steps step s [] t"
inductive_simps exec_cons_iff: "exec_steps step s (l # ls) u"

lemma exec_steps_append:
  "exec_steps step s (xs @ ys) u \<longleftrightarrow> (\<exists>t. exec_steps step s xs t \<and> exec_steps step t ys u)"
  by (induction xs arbitrary: s) (auto simp: exec_cons_iff)

lemma exec_reachable: "exec_steps step s ls t \<Longrightarrow> reachable s0 step s \<Longrightarrow> reachable s0 step t"
  by (induction rule: exec_steps.induct) (auto intro: reach_step)

locale invariant_system =
  fixes init :: 's
    and step :: "'s \<Rightarrow> 'l \<Rightarrow> 's \<Rightarrow> bool"
    and invar :: "'s \<Rightarrow> bool"
  assumes invar_init: "invar init"
    and invar_step: "invar s \<Longrightarrow> step s l t \<Longrightarrow> invar t"
begin

lemma invar_reachable: "reachable init step s \<Longrightarrow> invar s"
  by (induction rule: reachable.induct) (auto intro: invar_init invar_step)

lemma invar_exec: "exec_steps step s ls t \<Longrightarrow> invar s \<Longrightarrow> invar t"
  by (induction rule: exec_steps.induct) (auto intro: invar_step)

end

section \<open>Self-delimiting codecs\<close>

text \<open>
  A message format whose decoder knows from the bytes where a message ends: decoding the encoding
  of a message followed by any bytes gives the message and those bytes back. Then a stream of
  encoded messages decodes to the messages, whatever follows.
\<close>

fun decode_all :: "nat \<Rightarrow> (bytes \<Rightarrow> ('a \<times> bytes) option) \<Rightarrow> bytes \<Rightarrow> 'a list \<times> bytes" where
  "decode_all 0 dec bs = ([], bs)"
| "decode_all (Suc n) dec bs =
     (case dec bs of None \<Rightarrow> ([], bs)
      | Some (a, rest) \<Rightarrow> (let (as, r) = decode_all n dec rest in (a # as, r)))"

locale stream_codec =
  fixes valid :: "'a \<Rightarrow> bool"
    and enc :: "'a \<Rightarrow> bytes"
    and dec :: "bytes \<Rightarrow> ('a \<times> bytes) option"
  assumes dec_enc: "valid a \<Longrightarrow> dec (enc a @ rest) = Some (a, rest)"
begin

lemma enc_prefix_free:
  "valid a \<Longrightarrow> valid b \<Longrightarrow> enc a @ r = enc b @ r' \<Longrightarrow> a = b \<and> r = r'"
  by (metis dec_enc option.inject prod.inject)

lemma enc_inject: "valid a \<Longrightarrow> valid b \<Longrightarrow> enc a = enc b \<Longrightarrow> a = b"
  using enc_prefix_free [of a b "[]" "[]"] by simp

lemma decode_all_concat:
  "\<forall>a \<in> set as. valid a \<Longrightarrow>
   decode_all (length as) dec (concat (map enc as) @ rest) = (as, rest)"
  by (induction as) (simp_all add: dec_enc)

end

end
