(* ===== verification/Dns_Lib.thy ===== *)
theory Dns_Lib
  imports Rtun_Prelude
begin

text \<open>
  The DNS message library \<open>trust_dns_proto\<close> is not part of the repository. The code that uses it
  is modelled over a record of the operations it calls, with the message, query, name and resource
  record types as type variables. What the code relies on is \<open>dns_lib_laws\<close>: every setter changes
  exactly the field it names (as the getters read it) and a name that is fully qualified prints
  with a final dot. \<open>sample_lib\<close> is one instance that satisfies the laws; only the witnesses use it.
\<close>

section \<open>What the library is asked to do\<close>

datatype dns_class = ClassIN | ClassOther u16
datatype record_type = TypeA | TypeAAAA | TypeHTTPS | TypeOther u16
datatype op_code = OpQuery | OpOther byte
datatype message_type = MtQuery | MtResponse
datatype response_code = RcNoError | RcOther byte

text \<open>The getters of a message and of a resource record, as one view each.\<close>

record ('q, 'r) msg_view =
  v_id :: u16
  v_message_type :: message_type
  v_op_code :: op_code
  v_recursion_desired :: bool
  v_recursion_available :: bool
  v_response_code :: response_code
  v_queries :: "'q list"
  v_answers :: "'r list"

record 'n rec_view =
  r_name :: 'n
  r_ttl :: u32
  r_type :: record_type
  r_class :: dns_class
  r_data :: "ipv4_addr option"

record ('m, 'q, 'n, 'r) dns_lib =
  from_vec :: "bytes \<Rightarrow> 'm option"
  to_vec :: "'m \<Rightarrow> bytes option"
  view :: "'m \<Rightarrow> ('q, 'r) msg_view"
  msg_new :: 'm
  set_id :: "u16 \<Rightarrow> 'm \<Rightarrow> 'm"
  set_message_type :: "message_type \<Rightarrow> 'm \<Rightarrow> 'm"
  set_op_code :: "op_code \<Rightarrow> 'm \<Rightarrow> 'm"
  set_recursion_available :: "bool \<Rightarrow> 'm \<Rightarrow> 'm"
  set_recursion_desired :: "bool \<Rightarrow> 'm \<Rightarrow> 'm"
  set_response_code :: "response_code \<Rightarrow> 'm \<Rightarrow> 'm"
  add_query :: "'q \<Rightarrow> 'm \<Rightarrow> 'm"
  add_answer :: "'r \<Rightarrow> 'm \<Rightarrow> 'm"
  query_name :: "'q \<Rightarrow> 'n"
  query_type :: "'q \<Rightarrow> record_type"
  query_class :: "'q \<Rightarrow> dns_class"
  name_to_ascii :: "'n \<Rightarrow> string"
  name_is_fqdn :: "'n \<Rightarrow> bool"
  rview :: "'r \<Rightarrow> 'n rec_view"
  rec_new :: 'r
  set_name :: "'n \<Rightarrow> 'r \<Rightarrow> 'r"
  set_ttl :: "u32 \<Rightarrow> 'r \<Rightarrow> 'r"
  set_rr_type :: "record_type \<Rightarrow> 'r \<Rightarrow> 'r"
  set_dns_class :: "dns_class \<Rightarrow> 'r \<Rightarrow> 'r"
  set_data :: "ipv4_addr option \<Rightarrow> 'r \<Rightarrow> 'r"

abbreviation msg_id :: "('m, 'q, 'n, 'r) dns_lib \<Rightarrow> 'm \<Rightarrow> u16" where
  "msg_id L m \<equiv> v_id (view L m)"

section \<open>What the code relies on\<close>

definition msg_setter_laws :: "('m, 'q, 'n, 'r) dns_lib \<Rightarrow> bool" where
  "msg_setter_laws L \<longleftrightarrow>
     (\<forall>i m. view L (set_id L i m) = (view L m)\<lparr>v_id := i\<rparr>)
   \<and> (\<forall>t m. view L (set_message_type L t m) = (view L m)\<lparr>v_message_type := t\<rparr>)
   \<and> (\<forall>c m. view L (set_op_code L c m) = (view L m)\<lparr>v_op_code := c\<rparr>)
   \<and> (\<forall>b m. view L (set_recursion_available L b m) = (view L m)\<lparr>v_recursion_available := b\<rparr>)
   \<and> (\<forall>b m. view L (set_recursion_desired L b m) = (view L m)\<lparr>v_recursion_desired := b\<rparr>)
   \<and> (\<forall>c m. view L (set_response_code L c m) = (view L m)\<lparr>v_response_code := c\<rparr>)
   \<and> (\<forall>q m. view L (add_query L q m) = (view L m)\<lparr>v_queries := v_queries (view L m) @ [q]\<rparr>)
   \<and> (\<forall>r m. view L (add_answer L r m) = (view L m)\<lparr>v_answers := v_answers (view L m) @ [r]\<rparr>)
   \<and> v_queries (view L (msg_new L)) = [] \<and> v_answers (view L (msg_new L)) = []"

definition rec_setter_laws :: "('m, 'q, 'n, 'r) dns_lib \<Rightarrow> bool" where
  "rec_setter_laws L \<longleftrightarrow>
     (\<forall>n r. rview L (set_name L n r) = (rview L r)\<lparr>r_name := n\<rparr>)
   \<and> (\<forall>t r. rview L (set_ttl L t r) = (rview L r)\<lparr>r_ttl := t\<rparr>)
   \<and> (\<forall>t r. rview L (set_rr_type L t r) = (rview L r)\<lparr>r_type := t\<rparr>)
   \<and> (\<forall>c r. rview L (set_dns_class L c r) = (rview L r)\<lparr>r_class := c\<rparr>)
   \<and> (\<forall>d r. rview L (set_data L d r) = (rview L r)\<lparr>r_data := d\<rparr>)"

definition name_laws :: "('m, 'q, 'n, 'r) dns_lib \<Rightarrow> bool" where
  "name_laws L \<longleftrightarrow> (\<forall>n. name_is_fqdn L n \<longrightarrow> (\<exists>d. name_to_ascii L n = d @ ''.''))"

definition dns_lib_laws :: "('m, 'q, 'n, 'r) dns_lib \<Rightarrow> bool" where
  "dns_lib_laws L \<longleftrightarrow> msg_setter_laws L \<and> rec_setter_laws L \<and> name_laws L"

lemma view_set_id: "dns_lib_laws L \<Longrightarrow> view L (set_id L i m) = (view L m)\<lparr>v_id := i\<rparr>"
  by (simp add: dns_lib_laws_def msg_setter_laws_def)

lemma msg_setters:
  assumes "dns_lib_laws L"
  shows "view L (set_id L i m) = (view L m)\<lparr>v_id := i\<rparr>"
    "view L (set_message_type L t m) = (view L m)\<lparr>v_message_type := t\<rparr>"
    "view L (set_op_code L c m) = (view L m)\<lparr>v_op_code := c\<rparr>"
    "view L (set_recursion_available L b m) = (view L m)\<lparr>v_recursion_available := b\<rparr>"
    "view L (set_recursion_desired L b m) = (view L m)\<lparr>v_recursion_desired := b\<rparr>"
    "view L (set_response_code L rc m) = (view L m)\<lparr>v_response_code := rc\<rparr>"
    "view L (add_query L q m) = (view L m)\<lparr>v_queries := v_queries (view L m) @ [q]\<rparr>"
    "view L (add_answer L r m) = (view L m)\<lparr>v_answers := v_answers (view L m) @ [r]\<rparr>"
    "v_queries (view L (msg_new L)) = []" "v_answers (view L (msg_new L)) = []"
  using assms by (simp_all add: dns_lib_laws_def msg_setter_laws_def)

lemma rec_setters:
  assumes "dns_lib_laws L"
  shows "rview L (set_name L n r) = (rview L r)\<lparr>r_name := n\<rparr>"
    "rview L (set_ttl L t r) = (rview L r)\<lparr>r_ttl := t\<rparr>"
    "rview L (set_rr_type L rt r) = (rview L r)\<lparr>r_type := rt\<rparr>"
    "rview L (set_dns_class L c r) = (rview L r)\<lparr>r_class := c\<rparr>"
    "rview L (set_data L d r) = (rview L r)\<lparr>r_data := d\<rparr>"
  using assms by (simp_all add: dns_lib_laws_def rec_setter_laws_def)

lemma fqdn_ascii:
  "dns_lib_laws L \<Longrightarrow> name_is_fqdn L n \<Longrightarrow> \<exists>d. name_to_ascii L n = d @ ''.''"
  by (simp add: dns_lib_laws_def name_laws_def)

section \<open>An instance for the witnesses\<close>

text \<open>
  Messages are their own views, names are strings that end in a dot exactly when fully qualified.
  The wire format is a stand-in: two bytes of identifier, one byte of query type (1, 28 and 65 for
  A, AAAA and HTTPS), then the query name.
\<close>

type_synonym sample_query = "string \<times> record_type \<times> dns_class"
type_synonym sample_msg = "(sample_query, string rec_view) msg_view"

definition sample_type :: "byte \<Rightarrow> record_type" where
  "sample_type b = (if b = 1 then TypeA else if b = 28 then TypeAAAA else if b = 65 then TypeHTTPS
     else TypeOther (ucast b))"

fun sample_from_vec :: "bytes \<Rightarrow> sample_msg option" where
  "sample_from_vec (i # j # t # name) =
     Some \<lparr>v_id = u16_from_be_bytes [i, j], v_message_type = MtQuery, v_op_code = OpQuery,
           v_recursion_desired = True, v_recursion_available = False, v_response_code = RcNoError,
           v_queries = [(bytes_str name, sample_type t, ClassIN)], v_answers = []\<rparr>"
| "sample_from_vec _ = None"

definition sample_to_vec :: "sample_msg \<Rightarrow> bytes option" where
  "sample_to_vec m = Some (u16_to_be_bytes (v_id m) @ [of_nat (length (v_answers m))])"

definition sample_new :: sample_msg where
  "sample_new = \<lparr>v_id = 0, v_message_type = MtQuery, v_op_code = OpQuery, v_recursion_desired = False,
     v_recursion_available = False, v_response_code = RcNoError, v_queries = [], v_answers = []\<rparr>"

definition sample_rec :: "string rec_view" where
  "sample_rec = \<lparr>r_name = '''', r_ttl = 0, r_type = TypeA, r_class = ClassIN, r_data = None\<rparr>"

definition sample_lib :: "(sample_msg, sample_query, string, string rec_view) dns_lib" where
  "sample_lib = \<lparr>
     from_vec = sample_from_vec, to_vec = sample_to_vec, view = (\<lambda>m. m), msg_new = sample_new,
     set_id = (\<lambda>i m. m\<lparr>v_id := i\<rparr>),
     set_message_type = (\<lambda>t m. m\<lparr>v_message_type := t\<rparr>),
     set_op_code = (\<lambda>c m. m\<lparr>v_op_code := c\<rparr>),
     set_recursion_available = (\<lambda>b m. m\<lparr>v_recursion_available := b\<rparr>),
     set_recursion_desired = (\<lambda>b m. m\<lparr>v_recursion_desired := b\<rparr>),
     set_response_code = (\<lambda>c m. m\<lparr>v_response_code := c\<rparr>),
     add_query = (\<lambda>q m. m\<lparr>v_queries := v_queries m @ [q]\<rparr>),
     add_answer = (\<lambda>r m. m\<lparr>v_answers := v_answers m @ [r]\<rparr>),
     query_name = fst, query_type = (\<lambda>q. fst (snd q)), query_class = (\<lambda>q. snd (snd q)),
     name_to_ascii = (\<lambda>n. n), name_is_fqdn = (\<lambda>n. n \<noteq> [] \<and> last n = CHR ''.''),
     rview = (\<lambda>r. r), rec_new = sample_rec,
     set_name = (\<lambda>n r. r\<lparr>r_name := n\<rparr>), set_ttl = (\<lambda>t r. r\<lparr>r_ttl := t\<rparr>),
     set_rr_type = (\<lambda>t r. r\<lparr>r_type := t\<rparr>), set_dns_class = (\<lambda>c r. r\<lparr>r_class := c\<rparr>),
     set_data = (\<lambda>d r. r\<lparr>r_data := d\<rparr>)\<rparr>"

lemma sample_lib_laws: "dns_lib_laws sample_lib"
proof -
  have "\<exists>d. n = d @ ''.''" if "n \<noteq> []" "last n = CHR ''.''" for n :: string
    using that append_butlast_last_id [of n] by metis
  then show ?thesis
    by (simp add: dns_lib_laws_def msg_setter_laws_def rec_setter_laws_def name_laws_def
        sample_lib_def sample_new_def)
qed

end
