(* ===== verification/Fake_Dns.thy ===== *)
theory Fake_Dns
  imports Dns_Lib
begin

text \<open>
  \<open>crates/tun/src/fakedns.rs\<close>: the fake resolver. A query for a domain that matches a rule is
  answered with an address of 192.18.0.0/16 that is allocated to the domain; the TCP handler later
  maps the address back to the domain. The state is \<open>FakeDNSInner\<close> field by field. The theory shows
  that the two maps are inverse to each other, that the allocation cursor runs through the 65024
  usable addresses in order and never fails, and that the store refines a ring of that size.
\<close>

section \<open>State and operations\<close>

record fake_dns =
  ip_2_domain :: "u32 \<rightharpoonup> string"
  domain_2_ip :: "string \<rightharpoonup> u32"
  cursor :: u32
  ttl :: u32
  fake_ip_start :: u32
  fake_ip_end :: u32
  rules :: "string list"

datatype fakedns_error = InvalidPacket | EmptyQuery | CursorRange | EncodeError

datatype 'm fakedns_processed = Response bytes | Upstream 'm

text \<open>
  The loop of \<open>prepare_next_cursor\<close> makes three attempts; each moves the cursor, wraps it at the end
  of the range and accepts it unless the last byte is 0 or 255. The increment is checked.
\<close>

fun prepare_attempts :: "nat \<Rightarrow> fake_dns \<Rightarrow> (unit, fakedns_error) result \<times> fake_dns" where
  "prepare_attempts 0 s = (Err CursorRange, s)"
| "prepare_attempts (Suc n) s =
     (if cursor s = 4294967295 then (Panic ''attempt to add with overflow'', s)
      else
        let c = cursor s + 1;
            c' = (if c \<ge> fake_ip_end s then fake_ip_start s else c);
            s' = s\<lparr>cursor := c'\<rparr>;
            b = u32_to_be_bytes c' ! 3
        in if b = 0 \<or> b = 255 then prepare_attempts n s' else (Ok (), s'))"

definition prepare_next_cursor :: "fake_dns \<Rightarrow> (unit, fakedns_error) result \<times> fake_dns" where
  "prepare_next_cursor s = prepare_attempts 3 s"

definition fakedns_new :: "(fake_dns, fakedns_error) result" where
  "fakedns_new =
     (let start = ipv4_to_bits (Ipv4Addr 192 18 0 0);
          inst = \<lparr>ip_2_domain = Map.empty, domain_2_ip = Map.empty, cursor = start, ttl = 1,
                  fake_ip_start = start, fake_ip_end = ipv4_to_bits (Ipv4Addr 192 18 255 255),
                  rules = []\<rparr>
      in case prepare_next_cursor inst of
           (Ok _, s) \<Rightarrow> Ok s | (Err e, _) \<Rightarrow> Err e | (Panic m, _) \<Rightarrow> Panic m)"

definition is_fake_ip :: "fake_dns \<Rightarrow> socket_addr \<Rightarrow> bool" where
  "is_fake_ip s addr =
     (case addr of V4 a \<Rightarrow> ip_2_domain s (ipv4_to_bits (v4_ip a)) \<noteq> None | V6 _ \<Rightarrow> False)"

definition query_domain :: "fake_dns \<Rightarrow> u32 \<Rightarrow> string option" where
  "query_domain s ip = ip_2_domain s ip"

definition query_ip :: "fake_dns \<Rightarrow> string \<Rightarrow> ipv4_addr option" where
  "query_ip s domain = map_option ipv4_from_bits (domain_2_ip s domain)"

definition alloc_fake_ip ::
    "fake_dns \<Rightarrow> string \<Rightarrow> (ipv4_addr, fakedns_error) result \<times> fake_dns" where
  "alloc_fake_ip s domain =
     (let old = ip_2_domain s (cursor s);
          s1 = s\<lparr>ip_2_domain := (ip_2_domain s)(cursor s \<mapsto> domain)\<rparr>;
          s2 = (case old of
                  Some d \<Rightarrow> s1\<lparr>domain_2_ip := (domain_2_ip s1)(d := None)\<rparr>
                | None \<Rightarrow> s1);
          s3 = s2\<lparr>domain_2_ip := (domain_2_ip s2)(domain \<mapsto> cursor s2)\<rparr>;
          ipaddr = ipv4_from_bits (cursor s3)
      in case prepare_next_cursor s3 of
           (Ok _, s4) \<Rightarrow> (Ok ipaddr, s4)
         | (Err e, s4) \<Rightarrow> (Err e, s4)
         | (Panic m, s4) \<Rightarrow> (Panic m, s4))"

definition add_filter :: "fake_dns \<Rightarrow> string \<Rightarrow> fake_dns" where
  "add_filter s domain = s\<lparr>rules := rules s @ [domain]\<rparr>"

definition set_filter :: "fake_dns \<Rightarrow> string list \<Rightarrow> fake_dns" where
  "set_filter s f = s\<lparr>rules := f\<rparr>"

fun accept_rules :: "string list \<Rightarrow> string \<Rightarrow> bool" where
  "accept_rules [] domain = False"
| "accept_rules (f # fs) domain =
     (if str_contains domain f \<or> f = ''*'' then True else accept_rules fs domain)"

definition accept :: "fake_dns \<Rightarrow> string \<Rightarrow> bool" where
  "accept s domain = accept_rules (rules s) domain"

text \<open>The reply that \<open>process_dns_packet\<close> builds for an accepted query.\<close>

definition fake_answer :: "('m, 'q, 'n, 'r) dns_lib \<Rightarrow> u32 \<Rightarrow> 'n \<Rightarrow> ipv4_addr \<Rightarrow> 'r" where
  "fake_answer L t qname ipaddr =
     set_data L (Some ipaddr) (set_dns_class L ClassIN (set_rr_type L TypeA
       (set_ttl L t (set_name L qname (rec_new L)))))"

definition fake_response ::
    "('m, 'q, 'n, 'r) dns_lib \<Rightarrow> u32 \<Rightarrow> 'm \<Rightarrow> 'q \<Rightarrow> ipv4_addr \<Rightarrow> 'm" where
  "fake_response L t query_msg query ipaddr =
     (let qv = view L query_msg;
          r0 = set_op_code L (v_op_code qv)
                 (set_message_type L MtResponse (set_id L (v_id qv) (msg_new L)));
          r1 = (if v_op_code (view L r0) = OpQuery
                then set_recursion_desired L (v_recursion_desired qv)
                       (set_recursion_available L (v_recursion_available qv) r0)
                else r0);
          r2 = add_query L query (set_response_code L RcNoError r1)
      in if query_type L query = TypeA
         then add_answer L (fake_answer L t (query_name L query) ipaddr) r2
         else r2)"

text \<open>The key under which a query name is stored: the ASCII name without the final dot.\<close>

definition domain_key :: "('m, 'q, 'n, 'r) dns_lib \<Rightarrow> 'n \<Rightarrow> string" where
  "domain_key L qname =
     (let raw_name = name_to_ascii L qname
      in if name_is_fqdn L qname then take (length raw_name - 1) raw_name else raw_name)"

text \<open>Look the domain up, allocate an address for it when it has none.\<close>

definition resolve_with ::
    "('s \<Rightarrow> string \<Rightarrow> ipv4_addr option) \<Rightarrow> ('s \<Rightarrow> string \<Rightarrow> (ipv4_addr, 'e) result \<times> 's)
     \<Rightarrow> 's \<Rightarrow> string \<Rightarrow> (ipv4_addr, 'e) result \<times> 's" where
  "resolve_with ip_of alloc s domain =
     (case ip_of s domain of Some ipaddr \<Rightarrow> (Ok ipaddr, s) | None \<Rightarrow> alloc s domain)"

text \<open>The accepted branch of \<open>process_dns_packet\<close>: resolve the domain and encode the reply.\<close>

definition answer_query ::
    "('m, 'q, 'n, 'r) dns_lib \<Rightarrow> fake_dns \<Rightarrow> 'm \<Rightarrow> 'q
     \<Rightarrow> ('m fakedns_processed, fakedns_error) result \<times> fake_dns" where
  "answer_query L s query_msg query =
     (case resolve_with query_ip alloc_fake_ip s (domain_key L (query_name L query)) of
        (Err e, s') \<Rightarrow> (Err e, s')
      | (Panic m, s') \<Rightarrow> (Panic m, s')
      | (Ok ipaddr, s') \<Rightarrow>
        (case to_vec L (fake_response L (ttl s') query_msg query ipaddr) of
           None \<Rightarrow> (Err EncodeError, s')
         | Some v \<Rightarrow> (Ok (Response v), s')))"

definition process_dns_packet ::
    "('m, 'q, 'n, 'r) dns_lib \<Rightarrow> fake_dns \<Rightarrow> bytes
     \<Rightarrow> ('m fakedns_processed, fakedns_error) result \<times> fake_dns" where
  "process_dns_packet L s query_vec =
     (case from_vec L query_vec of
        None \<Rightarrow> (Err InvalidPacket, s)
      | Some query_msg \<Rightarrow>
        (case v_queries (view L query_msg) of
           [] \<Rightarrow> (Err EmptyQuery, s)
         | query # _ \<Rightarrow>
           if query_class L query \<noteq> ClassIN then (Ok (Upstream query_msg), s)
           else if query_type L query \<notin> {TypeA, TypeAAAA, TypeHTTPS}
           then (Ok (Upstream query_msg), s)
           else
             let qname = query_name L query;
                 raw_name = name_to_ascii L qname
             in if \<not> accept s raw_name then (Ok (Upstream query_msg), s)
                else if name_is_fqdn L qname \<and> raw_name = []
                then (Panic ''attempt to subtract with overflow'', s)
                else answer_query L s query_msg query))"

text \<open>
  \<open>FakeDNS\<close> puts the store behind a \<open>RwLock\<close>: every public method is one operation performed with
  the lock held, so a concurrent execution is a sequence of such calls.
\<close>

datatype fakedns_call =
    CallProcess bytes | CallAddFilter string | CallSetFilter "string list"
  | CallAccept string | CallIsFakeIp socket_addr | CallQueryIp string | CallQueryDomain u32

datatype 'm fakedns_return =
    RetProcessed "('m fakedns_processed, fakedns_error) result"
  | RetUnit | RetBool bool | RetIp "ipv4_addr option" | RetDomain "string option"

fun fakedns_do ::
    "('m, 'q, 'n, 'r) dns_lib \<Rightarrow> fakedns_call \<Rightarrow> fake_dns \<Rightarrow> 'm fakedns_return \<times> fake_dns" where
  "fakedns_do L (CallProcess v) s = (let (r, s') = process_dns_packet L s v in (RetProcessed r, s'))"
| "fakedns_do L (CallAddFilter d) s = (RetUnit, add_filter s d)"
| "fakedns_do L (CallSetFilter f) s = (RetUnit, set_filter s f)"
| "fakedns_do L (CallAccept d) s = (RetBool (accept s d), s)"
| "fakedns_do L (CallIsFakeIp a) s = (RetBool (is_fake_ip s a), s)"
| "fakedns_do L (CallQueryIp d) s = (RetIp (query_ip s d), s)"
| "fakedns_do L (CallQueryDomain ip) s = (RetDomain (query_domain s ip), s)"

fun fakedns_run :: "('m, 'q, 'n, 'r) dns_lib \<Rightarrow> fakedns_call list \<Rightarrow> fake_dns \<Rightarrow> fake_dns" where
  "fakedns_run L [] s = s"
| "fakedns_run L (c # cs) s = fakedns_run L cs (snd (fakedns_do L c s))"

section \<open>The cursor walks the usable addresses\<close>

text \<open>
  \<open>slot_addr k\<close> is the \<open>k\<close>-th usable address of the range: 254 addresses in each of 256 blocks, the
  ones whose last byte is neither 0 nor 255. \<open>slot_of\<close> is its inverse.
\<close>

abbreviation pool_size :: nat where "pool_size \<equiv> 65024"

definition slot_addr :: "nat \<Rightarrow> nat" where
  "slot_addr k = 3222405121 + 256 * (k div 254) + k mod 254"

definition slot_of :: "nat \<Rightarrow> nat" where
  "slot_of a = (a - 3222405120) div 256 * 254 + ((a - 3222405120) mod 256 - 1)"

definition fake_range :: "fake_dns \<Rightarrow> bool" where
  "fake_range s \<longleftrightarrow> fake_ip_start s = 3222405120 \<and> fake_ip_end s = 3222470655"

lemma fake_ip_bounds:
  "ipv4_to_bits (Ipv4Addr 192 18 0 0) = 3222405120"
  "ipv4_to_bits (Ipv4Addr 192 18 255 255) = 3222470655"
  by (simp_all add: ipv4_to_bits_def u32_from_be_bytes_def)

lemma slot_of_addr [simp]: "slot_of (slot_addr k) = k"
proof -
  have "slot_addr k - 3222405120 = Suc (k mod 254) + 256 * (k div 254)"
    by (simp add: slot_addr_def)
  moreover have "Suc (k mod 254) < 256"
    using mod_less_divisor [of 254 k] by linarith
  ultimately have "(slot_addr k - 3222405120) div 256 = k div 254"
    "(slot_addr k - 3222405120) mod 256 = Suc (k mod 254)"
    by (simp_all only: div_mult_self2 mod_mult_self2) simp_all
  then show ?thesis by (simp add: slot_of_def)
qed

lemma slot_addr_inject: "slot_addr j = slot_addr k \<longleftrightarrow> j = k"
  by (metis slot_of_addr)

lemma slot_addr_less: "k < pool_size \<Longrightarrow> slot_addr k < 3222470655"
proof -
  assume "k < pool_size"
  then have "k div 254 \<le> 255" by simp
  moreover have "k mod 254 \<le> 253" using mod_less_divisor [of 254 k] by linarith
  ultimately show ?thesis by (simp add: slot_addr_def)
qed

lemma slot_addr_ge: "3222405120 < slot_addr k"
  by (simp add: slot_addr_def)

lemma slot_addr_last: "slot_addr k mod 256 = Suc (k mod 254)"
proof -
  have "slot_addr k = Suc (k mod 254) + 256 * (12587520 + k div 254)"
    by (simp add: slot_addr_def)
  then have "slot_addr k mod 256 = Suc (k mod 254) mod 256"
    by (simp only: mod_mult_self2)
  moreover have "Suc (k mod 254) < 256"
    using mod_less_divisor [of 254 k] by linarith
  ultimately show ?thesis by simp
qed

lemma slot_word_unat [simp]: "k < pool_size \<Longrightarrow> unat (of_nat (slot_addr k) :: u32) = slot_addr k"
  using slot_addr_less [of k] by (simp add: unat_of_nat)

lemma slot_word_inject:
  "j < pool_size \<Longrightarrow> k < pool_size \<Longrightarrow>
   (of_nat (slot_addr j) :: u32) = of_nat (slot_addr k) \<longleftrightarrow> j = k"
  by (metis slot_of_addr slot_word_unat)

text \<open>One attempt of the loop, on natural numbers.\<close>

definition next_addr :: "nat \<Rightarrow> nat" where
  "next_addr n = (if n + 1 \<ge> 3222470655 then 3222405120 else n + 1)"

lemma prepare_attempt:
  assumes "fake_range s" "n < 3222470655"
  shows "prepare_attempts (Suc f) (s\<lparr>cursor := of_nat n\<rparr>) =
    (if next_addr n mod 256 = 0 \<or> next_addr n mod 256 = 255
     then prepare_attempts f (s\<lparr>cursor := of_nat (next_addr n)\<rparr>)
     else (Ok (), s\<lparr>cursor := of_nat (next_addr n)\<rparr>))"
proof -
  have small: "n + 1 < 2 ^ 32" using assms(2) by simp
  have n: "(of_nat n :: u32) \<noteq> 4294967295"
    using assms(2) by (auto simp: word_unat_eq_iff unat_of_nat)
  have cmp: "(3222470655 :: u32) \<le> of_nat n + 1 \<longleftrightarrow> 3222470655 \<le> n + 1"
    using small by (simp add: word_le_nat_alt unat_word_ariths unat_of_nat)
  have nx: "next_addr n < 2 ^ 32" using assms(2) by (simp add: next_addr_def)
  have byte: "(of_nat (unat (of_nat (next_addr n) :: u32)) :: byte) = of_nat (next_addr n)"
    using nx by (simp add: unat_of_nat)
  have last0: "(of_nat (next_addr n) :: byte) = 0 \<longleftrightarrow> next_addr n mod 256 = 0"
    by (simp add: word_unat_eq_iff unat_of_nat)
  have last255: "(of_nat (next_addr n) :: byte) = 255 \<longleftrightarrow> next_addr n mod 256 = 255"
    by (simp add: word_unat_eq_iff unat_of_nat)
  have step: "(if of_nat n + 1 \<ge> (3222470655 :: u32) then 3222405120 else of_nat n + 1) =
      (of_nat (next_addr n) :: u32)"
    using cmp by (simp add: next_addr_def)
  have "prepare_attempts (Suc f) (s\<lparr>cursor := of_nat n\<rparr>) =
    (let c' = (if of_nat n + 1 \<ge> (3222470655 :: u32) then 3222405120 else of_nat n + 1)
     in if u32_to_be_bytes c' ! 3 = 0 \<or> u32_to_be_bytes c' ! 3 = 255
        then prepare_attempts f (s\<lparr>cursor := c'\<rparr>) else (Ok (), s\<lparr>cursor := c'\<rparr>))"
    using assms(1) n by (simp add: fake_range_def Let_def)
  then show ?thesis
    unfolding step Let_def u32_last_byte byte last0 last255 .
qed

declare prepare_attempts.simps(2) [simp del]

lemma next_addr_inner:
  "k < pool_size \<Longrightarrow> k mod 254 < 253 \<Longrightarrow> next_addr (slot_addr k) = slot_addr (Suc k)"
proof -
  assume "k < pool_size" and m: "k mod 254 < 253"
  then have "k div 254 \<le> 255" by simp
  with m have "slot_addr k + 1 < 3222470655" unfolding slot_addr_def by linarith
  moreover have "slot_addr (Suc k) = slot_addr k + 1"
    using m by (simp add: slot_addr_def div_Suc mod_Suc)
  ultimately show ?thesis by (simp add: next_addr_def)
qed

lemma slot_block_end: "k mod 254 = 253 \<Longrightarrow> slot_addr k = 3222405374 + 256 * (k div 254)"
  by (simp add: slot_addr_def)

lemma slot_next_block:
  "k mod 254 = 253 \<Longrightarrow> slot_addr (Suc k) = 3222405377 + 256 * (k div 254)"
  by (simp add: slot_addr_def div_Suc mod_Suc)

lemma last_slot: "k < pool_size \<Longrightarrow> k div 254 = 255 \<Longrightarrow> k mod 254 = 253 \<Longrightarrow> k = 65023"
  using div_mult_mod_eq [of k 254] by simp

lemma not_last_slot:
  assumes "k < pool_size" "k mod 254 < 253 \<or> k div 254 < 255"
  shows "Suc k mod pool_size = Suc k"
proof -
  have "k \<noteq> 65023" using assms(2) by auto
  with assms(1) show ?thesis by simp
qed

lemma prepare_next_slot:
  assumes "fake_range s" "k < pool_size" "cursor s = of_nat (slot_addr k)"
  shows "prepare_next_cursor s =
    (Ok (), s\<lparr>cursor := of_nat (slot_addr (Suc k mod pool_size))\<rparr>)"
proof -
  let ?a = "slot_addr k"
  have s: "s = s\<lparr>cursor := of_nat ?a\<rparr>" using assms(3) by simp
  have a: "?a < 3222470655" by (rule slot_addr_less [OF assms(2)])
  have three: "prepare_next_cursor s = prepare_attempts (Suc (Suc (Suc 0))) (s\<lparr>cursor := of_nat ?a\<rparr>)"
    using s by (simp add: prepare_next_cursor_def numeral_3_eq_3)
  consider (inner) "k mod 254 < 253" | (block) "k mod 254 = 253" "k div 254 < 255"
    | (wrap) "k mod 254 = 253" "k div 254 = 255"
    using mod_less_divisor [of 254 k] assms(2) by force
  then show ?thesis
  proof cases
    case inner
    then have "Suc k mod pool_size = Suc k" by (intro not_last_slot assms(2)) simp
    moreover have "slot_addr (Suc k) mod 256 \<noteq> 0 \<and> slot_addr (Suc k) mod 256 \<noteq> 255"
      using inner by (simp add: slot_addr_last mod_Suc)
    ultimately show ?thesis
      using prepare_attempt [OF assms(1) a] next_addr_inner [OF assms(2) inner] three by simp
  next
    case block
    define b c where "b = 3222405375 + 256 * (k div 254)"
      and "c = 3222405376 + 256 * (k div 254)"
    have "Suc k mod pool_size = Suc k" using block by (intro not_last_slot assms(2)) simp
    moreover have "next_addr ?a = b" "next_addr b = c" "next_addr c = slot_addr (Suc k)"
      using block by (auto simp: b_def c_def next_addr_def slot_block_end slot_next_block)
    moreover have "b mod 256 = 255" "c mod 256 = 0" "slot_addr (Suc k) mod 256 = 1"
      using block by (simp_all add: b_def c_def slot_addr_last mod_Suc)
    moreover have "b < 3222470655" "c < 3222470655"
      using block(2) by (simp_all add: b_def c_def)
    ultimately show ?thesis
      using a three by (simp add: prepare_attempt [OF assms(1)])
  next
    case wrap
    have k: "k = 65023" by (rule last_slot [OF assms(2) wrap(2,1)])
    define b :: nat where "b = 3222405120"
    have "next_addr ?a = b" "next_addr b = slot_addr 0" "b mod 256 = 0" "b < 3222470655"
      by (simp_all add: b_def k next_addr_def slot_addr_def)
    moreover have "slot_addr 0 mod 256 = 1" by (simp add: slot_addr_def)
    ultimately show ?thesis
      using a three by (simp add: prepare_attempt [OF assms(1)] k)
  qed
qed

section \<open>The contract of the store\<close>

text \<open>
  What the resolver and the TCP handler need of the store: the two lookups are inverse to each
  other, allocating for a domain that has no address succeeds, and an allocation changes the
  domain of the allocated address only.
\<close>

locale fake_ip_store =
  fixes invar :: "'s \<Rightarrow> bool"
    and domain_of :: "'s \<Rightarrow> u32 \<Rightarrow> string option"
    and ip_of :: "'s \<Rightarrow> string \<Rightarrow> ipv4_addr option"
    and alloc :: "'s \<Rightarrow> string \<Rightarrow> (ipv4_addr, 'e) result \<times> 's"
  assumes inverse: "invar s \<Longrightarrow> ip_of s d = Some a \<longleftrightarrow> domain_of s (ipv4_to_bits a) = Some d"
    and alloc_ok: "invar s \<Longrightarrow> ip_of s d = None \<Longrightarrow>
          \<exists>a s'. alloc s d = (Ok a, s') \<and> invar s' \<and> ip_of s' d = Some a"
    and alloc_frame: "invar s \<Longrightarrow> ip_of s d = None \<Longrightarrow> alloc s d = (Ok a, s') \<Longrightarrow> b \<noteq> a \<Longrightarrow>
          domain_of s' (ipv4_to_bits b) = domain_of s (ipv4_to_bits b)"
begin

lemma ip_of_unique: "invar s \<Longrightarrow> ip_of s d = Some a \<Longrightarrow> ip_of s d' = Some a \<Longrightarrow> d = d'"
  by (simp add: inverse)

lemma resolve_ok:
  assumes "invar s"
  shows "\<exists>a s'. resolve_with ip_of alloc s d = (Ok a, s') \<and> invar s' \<and> ip_of s' d = Some a
           \<and> domain_of s' (ipv4_to_bits a) = Some d"
proof (cases "ip_of s d")
  case None
  with assms obtain a s' where "alloc s d = (Ok a, s')" "invar s'" "ip_of s' d = Some a"
    using alloc_ok by blast
  with None show ?thesis by (simp add: resolve_with_def inverse)
next
  case (Some a)
  with assms inverse [OF assms, of d a] show ?thesis by (simp add: resolve_with_def)
qed

lemma resolve_frame:
  assumes "invar s" "resolve_with ip_of alloc s d = (Ok a, s')" "b \<noteq> a"
  shows "domain_of s' (ipv4_to_bits b) = domain_of s (ipv4_to_bits b)"
  using assms alloc_frame by (auto simp: resolve_with_def split: option.splits)

lemma resolve_again:
  assumes "invar s" "resolve_with ip_of alloc s d = (Ok a, s')"
  shows "resolve_with ip_of alloc s' d = (Ok a, s')"
proof -
  from resolve_ok [OF assms(1), of d] assms(2) have "ip_of s' d = Some a" by auto
  then show ?thesis by (simp add: resolve_with_def)
qed

end

section \<open>The invariant and the ring\<close>

definition fakedns_inv :: "fake_dns \<Rightarrow> bool" where
  "fakedns_inv s \<longleftrightarrow>
     fake_range s
   \<and> (\<exists>k < pool_size. cursor s = of_nat (slot_addr k))
   \<and> (\<forall>d ip. domain_2_ip s d = Some ip \<longleftrightarrow> ip_2_domain s ip = Some d)
   \<and> (\<forall>ip d. ip_2_domain s ip = Some d \<longrightarrow> (\<exists>k < pool_size. ip = of_nat (slot_addr k)))"

text \<open>
  The specification of the store: a ring of \<open>pool_size\<close> slots and the position that is filled next.
\<close>

record ring =
  ring_pos :: nat
  ring_slots :: "nat \<rightharpoonup> string"

definition ring_alloc :: "string \<Rightarrow> ring \<Rightarrow> ring" where
  "ring_alloc d r = r\<lparr>ring_pos := Suc (ring_pos r) mod pool_size,
                      ring_slots := (ring_slots r)(ring_pos r \<mapsto> d)\<rparr>"

definition ring_abs :: "fake_dns \<Rightarrow> ring" where
  "ring_abs s = \<lparr>ring_pos = slot_of (unat (cursor s)),
     ring_slots = (\<lambda>k. if k < pool_size then ip_2_domain s (of_nat (slot_addr k)) else None)\<rparr>"

lemma ring_abs_slots: "ring_slots (ring_abs s) k =
    (if k < pool_size then ip_2_domain s (of_nat (slot_addr k)) else None)"
  by (simp add: ring_abs_def)

lemma fakedns_inv_cursor:
  "fakedns_inv s \<Longrightarrow> cursor s = of_nat (slot_addr (ring_pos (ring_abs s)))
     \<and> ring_pos (ring_abs s) < pool_size"
  by (auto simp: fakedns_inv_def ring_abs_def)

lemma fakedns_inv_inverse:
  "fakedns_inv s \<Longrightarrow> domain_2_ip s d = Some ip \<longleftrightarrow> ip_2_domain s ip = Some d"
  by (simp add: fakedns_inv_def)

lemma alloc_fake_ip_eq:
  assumes "fakedns_inv s"
  shows "alloc_fake_ip s d =
    (Ok (ipv4_from_bits (cursor s)),
     s\<lparr>ip_2_domain := (ip_2_domain s)(cursor s \<mapsto> d),
       domain_2_ip := (case ip_2_domain s (cursor s) of
                         None \<Rightarrow> domain_2_ip s
                       | Some d' \<Rightarrow> (domain_2_ip s)(d' := None))(d \<mapsto> cursor s),
       cursor := of_nat (slot_addr (Suc (ring_pos (ring_abs s)) mod pool_size))\<rparr>)"
proof -
  let ?k = "ring_pos (ring_abs s)"
  have k: "?k < pool_size" "cursor s = of_nat (slot_addr ?k)"
    using fakedns_inv_cursor [OF assms] by auto
  have nxt: "prepare_next_cursor t = (Ok (), t\<lparr>cursor := of_nat (slot_addr (Suc ?k mod pool_size))\<rparr>)"
    if "fake_range t" "cursor t = cursor s" for t
    using prepare_next_slot [OF that(1) k(1)] that(2) k(2) by simp
  have "fake_range s" using assms by (simp add: fakedns_inv_def)
  then show ?thesis
    by (cases "ip_2_domain s (cursor s)")
      (simp_all add: alloc_fake_ip_def Let_def nxt fake_range_def)
qed

lemma alloc_fake_ip_inv [inv_intros]:
  assumes "fakedns_inv s" "domain_2_ip s d = None"
  shows "fakedns_inv (snd (alloc_fake_ip s d))"
proof -
  have inv: "\<And>d ip. domain_2_ip s d = Some ip \<longleftrightarrow> ip_2_domain s ip = Some d"
    using assms(1) by (rule fakedns_inv_inverse)
  have new: "\<And>ip. ip_2_domain s ip \<noteq> Some d"
    using inv assms(2) by (metis option.distinct(1))
  have inj: "\<And>e ip. ip_2_domain s (cursor s) = Some e \<Longrightarrow> ip_2_domain s ip = Some e \<Longrightarrow> ip = cursor s"
    using inv by (metis option.inject)
  let ?s = "snd (alloc_fake_ip s d)"
  have "domain_2_ip ?s e = Some ip \<longleftrightarrow> ip_2_domain ?s ip = Some e" for e ip
    using new
    by (cases "ip_2_domain s (cursor s)") (auto simp: alloc_fake_ip_eq [OF assms(1)] inv dest: inj)
  moreover have "\<exists>k < pool_size. ip = of_nat (slot_addr k)" if "ip_2_domain ?s ip = Some e" for e ip
    using that assms(1) fakedns_inv_cursor [OF assms(1)]
    by (auto simp: alloc_fake_ip_eq [OF assms(1)] fakedns_inv_def split: if_splits)
  moreover have "fake_range ?s" "cursor ?s = of_nat (slot_addr (Suc (ring_pos (ring_abs s)) mod pool_size))"
    using assms(1) by (simp_all add: alloc_fake_ip_eq [OF assms(1)] fakedns_inv_def fake_range_def)
  moreover have "Suc (ring_pos (ring_abs s)) mod pool_size < pool_size" by simp
  ultimately show ?thesis unfolding fakedns_inv_def by blast
qed

lemma ring_abs_alloc:
  assumes "fakedns_inv s"
  shows "ring_abs (snd (alloc_fake_ip s d)) = ring_alloc d (ring_abs s)"
proof -
  let ?k = "ring_pos (ring_abs s)"
  have k: "?k < pool_size" "cursor s = of_nat (slot_addr ?k)"
    using fakedns_inv_cursor [OF assms] by auto
  have "(of_nat (slot_addr j) :: u32) = cursor s \<longleftrightarrow> j = ?k" if "j < pool_size" for j
    using slot_word_inject [OF that k(1)] k(2) by simp
  then have "ring_slots (ring_abs (snd (alloc_fake_ip s d))) j = ((ring_slots (ring_abs s))(?k \<mapsto> d)) j"
    for j
    using k(1) by (cases "j < pool_size") (simp_all add: alloc_fake_ip_eq [OF assms] ring_abs_slots)
  then have "ring_slots (ring_abs (snd (alloc_fake_ip s d))) = (ring_slots (ring_abs s))(?k \<mapsto> d)"
    by (rule ext)
  moreover have "ring_pos (ring_abs (snd (alloc_fake_ip s d))) = Suc ?k mod pool_size"
    by (simp add: alloc_fake_ip_eq [OF assms]) (simp add: ring_abs_def)
  ultimately show ?thesis by (simp add: ring_alloc_def)
qed

lemma query_ip_Some: "query_ip s d = Some a \<longleftrightarrow> domain_2_ip s d = Some (ipv4_to_bits a)"
  by (auto simp: query_ip_def)

interpretation fd: fake_ip_store fakedns_inv query_domain query_ip alloc_fake_ip
proof unfold_locales
  fix s d a
  assume "fakedns_inv s"
  then show "query_ip s d = Some a \<longleftrightarrow> query_domain s (ipv4_to_bits a) = Some d"
    by (simp add: query_ip_Some fakedns_inv_inverse query_domain_def)
next
  fix s d
  assume s: "fakedns_inv s" and "query_ip s d = None"
  then have "domain_2_ip s d = None" by (simp add: query_ip_def)
  then show "\<exists>a s'. alloc_fake_ip s d = (Ok a, s') \<and> fakedns_inv s' \<and> query_ip s' d = Some a"
    using alloc_fake_ip_inv [OF s] by (simp add: alloc_fake_ip_eq [OF s] query_ip_def)
next
  fix s d a s' b
  assume s: "fakedns_inv s" and alloc: "alloc_fake_ip s d = (Ok a, s')" and "b \<noteq> a"
  then have "ipv4_to_bits b \<noteq> cursor s"
    by (auto simp: alloc_fake_ip_eq [OF s]) (metis ipv4_from_to_bits)
  with alloc show "query_domain s' (ipv4_to_bits b) = query_domain s (ipv4_to_bits b)"
    by (auto simp: alloc_fake_ip_eq [OF s] query_domain_def)
qed

section \<open>Steps of the store\<close>

lemma resolve_state:
  "snd (resolve_with query_ip alloc_fake_ip s d) = s \<or>
   domain_2_ip s d = None \<and> snd (resolve_with query_ip alloc_fake_ip s d) = snd (alloc_fake_ip s d)"
  by (auto simp: resolve_with_def query_ip_def split: option.splits)

lemma answer_query_state:
  "snd (answer_query L s m q) =
   snd (resolve_with query_ip alloc_fake_ip s (domain_key L (query_name L q)))"
  by (auto simp: answer_query_def split: prod.split result.split option.split)

lemma process_state:
  "snd (process_dns_packet L s v) = s \<or>
   (\<exists>d. domain_2_ip s d = None \<and> snd (process_dns_packet L s v) = snd (alloc_fake_ip s d))"
proof -
  have "snd (process_dns_packet L s v) = s \<or>
      (\<exists>m q. snd (process_dns_packet L s v) = snd (answer_query L s m q))"
    by (auto simp: process_dns_packet_def Let_def split: option.split list.split)
  then show ?thesis
    using resolve_state unfolding answer_query_state by metis
qed

lemma process_inv [inv_intros]: "fakedns_inv s \<Longrightarrow> fakedns_inv (snd (process_dns_packet L s v))"
  using process_state [of L s v] alloc_fake_ip_inv by metis

lemma rules_inv [simp]: "fakedns_inv (s\<lparr>rules := f\<rparr>) = fakedns_inv s"
  by (simp add: fakedns_inv_def fake_range_def)

lemma rules_ring [simp]: "ring_abs (s\<lparr>rules := f\<rparr>) = ring_abs s"
  by (simp add: ring_abs_def fun_eq_iff)

fun is_process :: "fakedns_call \<Rightarrow> bool" where
  "is_process (CallProcess _) = True"
| "is_process _ = False"

lemma fakedns_do_inv [inv_intros]: "fakedns_inv s \<Longrightarrow> fakedns_inv (snd (fakedns_do L c s))"
  using process_inv [of s L]
  by (cases c) (auto simp: add_filter_def set_filter_def split: prod.splits, metis snd_conv)

lemma fakedns_do_ring:
  "\<not> is_process c \<Longrightarrow> ring_abs (snd (fakedns_do L c s)) = ring_abs s"
  by (cases c) (auto simp: add_filter_def set_filter_def)

lemma fakedns_do_ring_alloc:
  assumes "fakedns_inv s"
  shows "ring_abs (snd (fakedns_do L c s)) = ring_abs s \<or>
    (\<exists>d. ring_abs (snd (fakedns_do L c s)) = ring_alloc d (ring_abs s))"
proof (cases c)
  case (CallProcess v)
  then have "snd (fakedns_do L c s) = snd (process_dns_packet L s v)"
    by (simp split: prod.splits)
  then show ?thesis
    using process_state [of L s v] ring_abs_alloc [OF assms] by metis
qed (simp_all add: add_filter_def set_filter_def)

text \<open>How many further allocations leave slot \<open>k\<close> alone.\<close>

definition ring_left :: "nat \<Rightarrow> ring \<Rightarrow> nat" where
  "ring_left k r = (if ring_pos r \<le> k then k - ring_pos r else k + pool_size - ring_pos r)"

lemma ring_alloc_left:
  assumes "ring_pos r < pool_size" "k < pool_size" "ring_left k r = Suc m"
  shows "ring_left k (ring_alloc d r) = m" "ring_slots (ring_alloc d r) k = ring_slots r k"
proof -
  show "ring_left k (ring_alloc d r) = m"
  proof (cases "ring_pos r = pool_size - 1")
    case False
    with assms(1) have "ring_pos (ring_alloc d r) = Suc (ring_pos r)" by (simp add: ring_alloc_def)
    with assms show ?thesis by (auto simp: ring_left_def split: if_splits)
  qed (use assms in \<open>auto simp: ring_left_def ring_alloc_def split: if_splits\<close>)
  show "ring_slots (ring_alloc d r) k = ring_slots r k"
    using assms(3) by (auto simp: ring_left_def ring_alloc_def)
qed

lemma ring_left_fresh:
  "ring_pos r < pool_size \<Longrightarrow> ring_left (ring_pos r) (ring_alloc d r) = pool_size - 1"
  by (cases "ring_pos r = pool_size - 1") (simp_all add: ring_left_def ring_alloc_def)

lemma fakedns_run_slot:
  "fakedns_inv s \<Longrightarrow> k < pool_size \<Longrightarrow>
   length (filter is_process cs) \<le> ring_left k (ring_abs s) \<Longrightarrow>
   ring_slots (ring_abs (fakedns_run L cs s)) k = ring_slots (ring_abs s) k"
proof (induction cs arbitrary: s)
  case (Cons c cs)
  let ?t = "snd (fakedns_do L c s)"
  have inv: "fakedns_inv ?t" by (rule fakedns_do_inv [OF Cons.prems(1)])
  show ?case
  proof (cases "ring_abs ?t = ring_abs s")
    case True
    with Cons.prems(3) have "length (filter is_process cs) \<le> ring_left k (ring_abs ?t)"
      by (simp split: if_splits)
    from Cons.IH [OF inv Cons.prems(2) this] True show ?thesis by simp
  next
    case False
    then obtain d where d: "ring_abs ?t = ring_alloc d (ring_abs s)"
      using fakedns_do_ring_alloc [OF Cons.prems(1)] by blast
    have "is_process c" using False fakedns_do_ring by blast
    with Cons.prems(3) obtain m where m: "ring_left k (ring_abs s) = Suc m"
      "length (filter is_process cs) \<le> m"
      by (cases "ring_left k (ring_abs s)") auto
    have pos: "ring_pos (ring_abs s) < pool_size" using fakedns_inv_cursor [OF Cons.prems(1)] by simp
    note left = ring_alloc_left [OF pos Cons.prems(2) m(1), of d]
    have "length (filter is_process cs) \<le> ring_left k (ring_abs ?t)" using m(2) left(1) d by simp
    from Cons.IH [OF inv Cons.prems(2) this] left(2) d show ?thesis by simp
  qed
qed simp

lemma fakedns_run_inv [inv_intros]: "fakedns_inv s \<Longrightarrow> fakedns_inv (fakedns_run L cs s)"
  by (induction cs arbitrary: s) (auto intro: fakedns_do_inv)

section \<open>The initial store\<close>

definition fakedns_init :: fake_dns where
  "fakedns_init = \<lparr>ip_2_domain = Map.empty, domain_2_ip = Map.empty, cursor = 3222405121, ttl = 1,
     fake_ip_start = 3222405120, fake_ip_end = 3222470655, rules = []\<rparr>"

lemma fakedns_init_inv [simp]: "fakedns_inv fakedns_init"
proof -
  have "\<exists>k < pool_size. (3222405121 :: u32) = of_nat (slot_addr k)"
    by (rule exI [of _ 0]) (simp add: slot_addr_def)
  then show ?thesis by (simp add: fakedns_inv_def fake_range_def fakedns_init_def)
qed

lemma fakedns_new_Ok: "fakedns_new = Ok fakedns_init"
proof -
  let ?s = "fakedns_init\<lparr>cursor := of_nat 3222405120\<rparr>"
  have "prepare_next_cursor ?s = prepare_attempts (Suc 2) ?s"
    by (simp add: prepare_next_cursor_def)
  also have "\<dots> = (Ok (), fakedns_init\<lparr>cursor := of_nat 3222405121\<rparr>)"
    by (subst prepare_attempt) (simp_all add: fake_range_def fakedns_init_def next_addr_def)
  finally show ?thesis
    by (simp add: fakedns_new_def fake_ip_bounds fakedns_init_def)
qed

section \<open>Properties\<close>

text \<open>
  C4: the resolver starts, and whatever sequence of calls the handlers make, the two maps stay
  inverse to each other, the cursor stays on a usable address of the range and every allocated
  address is one of the 65024 usable ones.
\<close>

theorem fakedns_invariant:
  "\<exists>s0. fakedns_new = Ok s0 \<and> (\<forall>cs. fakedns_inv (fakedns_run L cs s0))"
  using fakedns_new_Ok fakedns_run_inv [OF fakedns_init_inv] by blast

text \<open>
  C5: an allocation refines the ring: it succeeds with the address of the next slot, that slot now
  holds the domain, every other slot is unchanged and the position moves on by one, wrapping after
  65024 allocations. In particular \<open>prepare_next_cursor\<close> never fails.
\<close>

theorem alloc_refines_ring:
  assumes "fakedns_inv s"
  shows "fst (alloc_fake_ip s d) = Ok (ipv4_from_bits (of_nat (slot_addr (ring_pos (ring_abs s)))))
    \<and> ring_abs (snd (alloc_fake_ip s d)) = ring_alloc d (ring_abs s)"
proof
  show "fst (alloc_fake_ip s d) = Ok (ipv4_from_bits (of_nat (slot_addr (ring_pos (ring_abs s)))))"
    using fakedns_inv_cursor [OF assms] by (simp add: alloc_fake_ip_eq [OF assms])
qed (rule ring_abs_alloc [OF assms])

theorem alloc_refines_ring_witness:
  "fakedns_inv fakedns_init \<and>
   fst (alloc_fake_ip fakedns_init ''a.org'') =
     Ok (ipv4_from_bits (of_nat (slot_addr (ring_pos (ring_abs fakedns_init))))) \<and>
   ring_abs (snd (alloc_fake_ip fakedns_init ''a.org'')) = ring_alloc ''a.org'' (ring_abs fakedns_init)"
  using alloc_refines_ring [of fakedns_init "''a.org''"] by simp

lemma alloc_kept:
  assumes "fakedns_inv s" "query_ip s d = None" "alloc_fake_ip s d = (Ok ip, s1)"
    and "length (filter is_process cs) < pool_size"
  shows "query_domain (fakedns_run L cs s1) (ipv4_to_bits ip) = Some d
    \<and> query_ip (fakedns_run L cs s1) d = Some ip"
proof -
  let ?k = "ring_pos (ring_abs s)"
  have k: "?k < pool_size" "cursor s = of_nat (slot_addr ?k)"
    using fakedns_inv_cursor [OF assms(1)] by auto
  have s1: "s1 = snd (alloc_fake_ip s d)" and ip: "ipv4_to_bits ip = of_nat (slot_addr ?k)"
    using assms(3) k(2) alloc_fake_ip_eq [OF assms(1), of d] by auto
  have inv1: "fakedns_inv s1"
    using alloc_fake_ip_inv [OF assms(1)] assms(2) s1 by (simp add: query_ip_def)
  have ring1: "ring_abs s1 = ring_alloc d (ring_abs s)" using ring_abs_alloc [OF assms(1)] s1 by simp
  have "length (filter is_process cs) \<le> ring_left ?k (ring_abs s1)"
    using assms(4) ring_left_fresh [OF k(1)] ring1 by simp
  from fakedns_run_slot [OF inv1 k(1) this]
  have "ring_slots (ring_abs (fakedns_run L cs s1)) ?k = Some d"
    by (simp add: ring1 ring_alloc_def)
  then have "query_domain (fakedns_run L cs s1) (ipv4_to_bits ip) = Some d"
    using k(1) by (simp add: ring_abs_slots query_domain_def ip)
  then show ?thesis
    using fd.inverse [OF fakedns_run_inv [OF inv1]] by blast
qed

text \<open>
  C6: an allocated address keeps its domain through any sequence of calls with fewer than 65024
  queries: in between, the address maps back to the domain and the domain to the address.
\<close>

theorem fake_ip_stable:
  assumes "fakedns_inv s" "query_ip s d = None" "alloc_fake_ip s d = (Ok ip, s1)"
    and "length (filter is_process cs) < pool_size"
  shows "query_domain (fakedns_run L cs s1) (ipv4_to_bits ip) = Some d
    \<and> query_ip (fakedns_run L cs s1) d = Some ip"
  by (rule alloc_kept [OF assms])

theorem fake_ip_stable_witness:
  "query_domain (fakedns_run sample_lib [CallSetFilter [''*''], CallProcess [0, 7, 1, 98]]
     (snd (alloc_fake_ip fakedns_init ''a.org''))) 3222405121 = Some ''a.org''"
proof -
  have ring: "ring_pos (ring_abs fakedns_init) = 0"
    by (simp add: ring_abs_def fakedns_init_def slot_of_def)
  have "alloc_fake_ip fakedns_init ''a.org'' =
      (Ok (ipv4_from_bits 3222405121), snd (alloc_fake_ip fakedns_init ''a.org''))"
    using alloc_fake_ip_eq [OF fakedns_init_inv, of "''a.org''"] by (simp add: fakedns_init_def)
  moreover have "query_ip fakedns_init ''a.org'' = None"
    by (simp add: query_ip_def fakedns_init_def)
  ultimately show ?thesis
    using fake_ip_stable [of fakedns_init "''a.org''" "ipv4_from_bits 3222405121" _
        "[CallSetFilter [''*''], CallProcess [0, 7, 1, 98]]" sample_lib]
    by simp
qed

lemma alloc_ttl: "fakedns_inv s \<Longrightarrow> ttl (snd (alloc_fake_ip s d)) = ttl s"
  by (simp add: alloc_fake_ip_eq)

lemma resolve_ttl:
  "fakedns_inv s \<Longrightarrow> ttl (snd (resolve_with query_ip alloc_fake_ip s d)) = ttl s"
  using resolve_state [of s d] alloc_ttl by metis

lemma fake_response_view:
  assumes "dns_lib_laws L"
  shows "view L (fake_response L t m q ip) =
    (let qv = view L m; v = view L (msg_new L) in
     v\<lparr>v_id := v_id qv, v_message_type := MtResponse, v_op_code := v_op_code qv,
       v_recursion_desired :=
         (if v_op_code qv = OpQuery then v_recursion_desired qv else v_recursion_desired v),
       v_recursion_available :=
         (if v_op_code qv = OpQuery then v_recursion_available qv else v_recursion_available v),
       v_response_code := RcNoError, v_queries := [q],
       v_answers := (if query_type L q = TypeA then [fake_answer L t (query_name L q) ip] else [])\<rparr>)"
  by (simp add: fake_response_def Let_def msg_setters [OF assms])

lemma fake_answer_view:
  assumes "dns_lib_laws L"
  shows "rview L (fake_answer L t n ip) =
    \<lparr>r_name = n, r_ttl = t, r_type = TypeA, r_class = ClassIN, r_data = Some ip\<rparr>"
  by (simp add: fake_answer_def rec_setters [OF assms])

lemma domain_key_ascii:
  assumes "dns_lib_laws L" "name_is_fqdn L n"
  shows "name_to_ascii L n = domain_key L n @ ''.''"
  using fqdn_ascii [OF assms] assms(2) by (auto simp: domain_key_def)

lemma process_accepted:
  assumes "dns_lib_laws L" "from_vec L v = Some m" "v_queries (view L m) = q # qs"
    and "query_class L q = ClassIN" "query_type L q \<in> {TypeA, TypeAAAA, TypeHTTPS}"
    and "accept s (name_to_ascii L (query_name L q))"
  shows "process_dns_packet L s v = answer_query L s m q"
proof -
  have "\<not> (name_is_fqdn L (query_name L q) \<and> name_to_ascii L (query_name L q) = [])"
    using domain_key_ascii [OF assms(1)] by fastforce
  with assms(2-) show ?thesis
    by (simp only: process_dns_packet_def Let_def option.case list.case if_False if_True simp_thms)
qed

lemma accepted_answer:
  assumes "dns_lib_laws L" "fakedns_inv s" "from_vec L v = Some m" "v_queries (view L m) = q # qs"
    and "query_class L q = ClassIN" "query_type L q \<in> {TypeA, TypeAAAA, TypeHTTPS}"
    and "accept s (name_to_ascii L (query_name L q))"
  shows "\<exists>R ip s'.
    process_dns_packet L s v =
      ((case to_vec L R of Some b \<Rightarrow> Ok (Response b) | None \<Rightarrow> Err EncodeError), s')
    \<and> v_id (view L R) = v_id (view L m) \<and> v_message_type (view L R) = MtResponse
    \<and> v_response_code (view L R) = RcNoError \<and> v_queries (view L R) = [q]
    \<and> map (rview L) (v_answers (view L R)) =
        (if query_type L q = TypeA
         then [\<lparr>r_name = query_name L q, r_ttl = ttl s, r_type = TypeA, r_class = ClassIN,
                r_data = Some ip\<rparr>] else [])
    \<and> resolve_with query_ip alloc_fake_ip s (domain_key L (query_name L q)) = (Ok ip, s')
    \<and> fakedns_inv s'
    \<and> query_domain s' (ipv4_to_bits ip) = Some (domain_key L (query_name L q))"
proof -
  let ?d = "domain_key L (query_name L q)"
  obtain ip s' where r: "resolve_with query_ip alloc_fake_ip s ?d = (Ok ip, s')"
    and s': "fakedns_inv s'" "query_domain s' (ipv4_to_bits ip) = Some ?d"
    using fd.resolve_ok [OF assms(2)] by blast
  have ttl: "ttl s' = ttl s" using resolve_ttl [OF assms(2), of ?d] r by simp
  let ?R = "fake_response L (ttl s) m q ip"
  have "process_dns_packet L s v =
      ((case to_vec L ?R of Some b \<Rightarrow> Ok (Response b) | None \<Rightarrow> Err EncodeError), s')"
    using process_accepted [OF assms(1,3-)] r ttl
    by (simp add: answer_query_def split: option.split)
  then show ?thesis
    using s' r by (intro exI [of _ ?R] exI [of _ ip] exI [of _ s'])
      (simp add: fake_response_view [OF assms(1)] fake_answer_view [OF assms(1)] Let_def)
qed

text \<open>
  C7: an accepted query (class IN, type A, AAAA or HTTPS, name matched by a rule) is answered. The
  reply carries the query's identifier and question, is marked a response without error, and has
  one answer for a type A query (the queried name, the store's time to live and a fake address)
  and none otherwise. Afterwards the fake address maps back to the queried domain.
\<close>

theorem process_dns_packet_answer:
  assumes "dns_lib_laws L" "fakedns_inv s" "from_vec L v = Some m" "v_queries (view L m) = q # qs"
    and "query_class L q = ClassIN" "query_type L q \<in> {TypeA, TypeAAAA, TypeHTTPS}"
    and "accept s (name_to_ascii L (query_name L q))"
  shows "\<exists>R ip s'.
    process_dns_packet L s v =
      ((case to_vec L R of Some b \<Rightarrow> Ok (Response b) | None \<Rightarrow> Err EncodeError), s')
    \<and> v_id (view L R) = v_id (view L m) \<and> v_message_type (view L R) = MtResponse
    \<and> v_response_code (view L R) = RcNoError \<and> v_queries (view L R) = [q]
    \<and> map (rview L) (v_answers (view L R)) =
        (if query_type L q = TypeA
         then [\<lparr>r_name = query_name L q, r_ttl = ttl s, r_type = TypeA, r_class = ClassIN,
                r_data = Some ip\<rparr>] else [])
    \<and> fakedns_inv s'
    \<and> query_domain s' (ipv4_to_bits ip) = Some (domain_key L (query_name L q))"
  using accepted_answer [OF assms] by blast

theorem process_dns_packet_answer_witness:
  "\<exists>b s'. process_dns_packet sample_lib (fakedns_init\<lparr>rules := [''b'']\<rparr>) [0, 7, 1, 98, 46] =
      (Ok (Response b), s') \<and> (\<exists>ip. query_domain s' (ipv4_to_bits ip) = Some ''b'')"
proof -
  let ?m = "the (sample_from_vec [0, 7, 1, 98, 46])"
  have "bytes_str [98, 46] = ''b.''" by (simp add: bytes_str_def char_of_def bit_0)
  then show ?thesis
    using process_dns_packet_answer [OF sample_lib_laws, of "fakedns_init\<lparr>rules := [''b'']\<rparr>"
        "[0, 7, 1, 98, 46]" ?m "(''b.'', TypeA, ClassIN)" "[]"]
    by (auto simp: sample_lib_def accept_def sample_type_def domain_key_def sample_to_vec_def)
qed

lemma answer_query_not_upstream: "answer_query L s m q \<noteq> (Ok (Upstream m'), s')"
  by (auto simp: answer_query_def split: prod.split result.split option.split)

text \<open>
  C8: a packet is passed to the upstream resolver exactly when it decodes, its first query is not
  of class IN, not of type A, AAAA or HTTPS, or is not matched by a rule; the message passed on is
  the decoded one and the store is unchanged.
\<close>

theorem process_dns_packet_upstream:
  "process_dns_packet L s v = (Ok (Upstream m), s') \<longleftrightarrow>
   s' = s \<and> from_vec L v = Some m \<and>
   (\<exists>q qs. v_queries (view L m) = q # qs \<and>
      \<not> (query_class L q = ClassIN \<and> query_type L q \<in> {TypeA, TypeAAAA, TypeHTTPS}
         \<and> accept s (name_to_ascii L (query_name L q))))"
  by (auto simp: process_dns_packet_def Let_def answer_query_not_upstream
      split: option.splits list.splits if_splits)

lemma answer_query_cases:
  assumes "fakedns_inv s"
  shows "\<exists>s'. answer_query L s m q = (Err EncodeError, s') \<or>
      (\<exists>b. answer_query L s m q = (Ok (Response b), s'))"
  using fd.resolve_ok [OF assms, of "domain_key L (query_name L q)"]
  by (auto simp: answer_query_def split: option.split)

lemma process_cases:
  assumes "dns_lib_laws L"
  shows "process_dns_packet L s v =
    (case from_vec L v of None \<Rightarrow> (Err InvalidPacket, s) | Some m \<Rightarrow>
      (case v_queries (view L m) of [] \<Rightarrow> (Err EmptyQuery, s) | q # qs \<Rightarrow>
        if query_class L q \<noteq> ClassIN \<or> query_type L q \<notin> {TypeA, TypeAAAA, TypeHTTPS}
           \<or> \<not> accept s (name_to_ascii L (query_name L q))
        then (Ok (Upstream m), s) else answer_query L s m q))"
  using domain_key_ascii [OF assms]
  by (auto simp: process_dns_packet_def Let_def split: option.split list.split)

text \<open>
  C9: no packet makes the resolver panic or run out of addresses. An undecodable packet and a
  message without a query are reported as such and leave the store unchanged; the only other error
  is a reply that the library cannot encode.
\<close>

theorem process_dns_packet_errors:
  assumes "dns_lib_laws L" "fakedns_inv s"
  shows "\<not> is_panic (fst (process_dns_packet L s v))
    \<and> fst (process_dns_packet L s v) \<noteq> Err CursorRange
    \<and> (process_dns_packet L s v = (Err InvalidPacket, s) \<longleftrightarrow> from_vec L v = None)
    \<and> (process_dns_packet L s v = (Err EmptyQuery, s) \<longleftrightarrow>
        (\<exists>m. from_vec L v = Some m \<and> v_queries (view L m) = []))"
proof -
  have ans: "\<not> is_panic (fst (answer_query L s m q))" "fst (answer_query L s m q) \<noteq> Err CursorRange"
    "answer_query L s m q \<noteq> (Err InvalidPacket, t)" "answer_query L s m q \<noteq> (Err EmptyQuery, t)"
    for m q t
    using answer_query_cases [OF assms(2), of L m q] by auto
  show ?thesis
    unfolding process_cases [OF assms(1)]
    by (simp add: ans split: option.split list.split)
qed

theorem process_dns_packet_errors_witness:
  "process_dns_packet sample_lib fakedns_init [1] = (Err InvalidPacket, fakedns_init)"
  using process_dns_packet_errors [OF sample_lib_laws fakedns_init_inv, of "[1]"]
  by (simp add: sample_lib_def)

lemma accept_rules_iff:
  "accept_rules fs domain \<longleftrightarrow> (\<exists>f \<in> set fs. f = ''*'' \<or> str_contains domain f)"
  by (induction fs) auto

text \<open>
  A name is accepted exactly when some rule is the wildcard or occurs in the name as a
  substring.
\<close>

theorem accept_iff:
  "accept s domain \<longleftrightarrow> (\<exists>f \<in> set (rules s). f = ''*'' \<or> (\<exists>u v. domain = u @ f @ v))"
  by (simp add: accept_def accept_rules_iff str_contains_iff)

text \<open>
  A blank line of the rule file is the empty rule, and the empty rule matches every name: the whole
  name space is then answered with fake addresses.
\<close>

lemma accept_blank_rule: "[] \<in> set (rules s) \<Longrightarrow> accept s domain"
  by (force simp: accept_def accept_rules_iff)

end
