(* ===== verification/Socks5.thy ===== *)
theory Socks5
  imports Rtun_Prelude
begin

text \<open>
  \<open>crates/tun/src/socks5/mod.rs\<close> and \<open>tcp_client.rs\<close>: the SOCKS5 messages the client writes and
  reads, and the client handshake. The connection to the proxy is a record of the bytes the peer
  sends, what ends them, and the bytes written so far; the outcomes of connecting and of each
  \<open>write_all\<close> are given. The message formats of RFC 1928 as a server reads and writes them are the
  specification the client is checked against.
\<close>

section \<open>Constants and reply codes\<close>

definition SOCKS5_VERSION :: byte where "SOCKS5_VERSION = 0x05"
definition SOCKS5_AUTH_METHOD_NONE :: byte where "SOCKS5_AUTH_METHOD_NONE = 0x00"
definition SOCKS5_ADDR_TYPE_IPV4 :: byte where "SOCKS5_ADDR_TYPE_IPV4 = 0x01"
definition SOCKS5_ADDR_TYPE_DOMAIN_NAME :: byte where "SOCKS5_ADDR_TYPE_DOMAIN_NAME = 0x03"
definition SOCKS5_ADDR_TYPE_IPV6 :: byte where "SOCKS5_ADDR_TYPE_IPV6 = 0x04"
definition SOCKS5_CMD_TCP_CONNECT :: byte where "SOCKS5_CMD_TCP_CONNECT = 0x01"

lemmas socks5_consts = SOCKS5_VERSION_def SOCKS5_AUTH_METHOD_NONE_def SOCKS5_ADDR_TYPE_IPV4_def
  SOCKS5_ADDR_TYPE_DOMAIN_NAME_def SOCKS5_ADDR_TYPE_IPV6_def SOCKS5_CMD_TCP_CONNECT_def

datatype reply = Succeeded | GeneralFailure | ConnectionNotAllowed | NetworkUnreachable
  | HostUnreachable | ConnectionRefused | TtlExpired | CommandNotSupported
  | AddressTypeNotSupported | OtherReply byte

fun reply_as_u8 :: "reply \<Rightarrow> byte" where
  "reply_as_u8 Succeeded = 0x00"
| "reply_as_u8 GeneralFailure = 0x01"
| "reply_as_u8 ConnectionNotAllowed = 0x02"
| "reply_as_u8 NetworkUnreachable = 0x03"
| "reply_as_u8 HostUnreachable = 0x04"
| "reply_as_u8 ConnectionRefused = 0x05"
| "reply_as_u8 TtlExpired = 0x06"
| "reply_as_u8 CommandNotSupported = 0x07"
| "reply_as_u8 AddressTypeNotSupported = 0x08"
| "reply_as_u8 (OtherReply c) = c"

definition reply_from_u8 :: "byte \<Rightarrow> reply" where
  "reply_from_u8 code =
     (if code = 0x00 then Succeeded
      else if code = 0x01 then GeneralFailure
      else if code = 0x02 then ConnectionNotAllowed
      else if code = 0x03 then NetworkUnreachable
      else if code = 0x04 then HostUnreachable
      else if code = 0x05 then ConnectionRefused
      else if code = 0x06 then TtlExpired
      else if code = 0x07 then CommandNotSupported
      else if code = 0x08 then AddressTypeNotSupported
      else OtherReply code)"

text \<open>\<open>u8::to_string\<close>, as the format string of the last arm needs it.\<close>

definition digit_char :: "nat \<Rightarrow> char" where
  "digit_char n = char_of (48 + n)"

definition u8_to_string :: "byte \<Rightarrow> string" where
  "u8_to_string b =
     (let n = unat b in
      if n < 10 then [digit_char n]
      else if n < 100 then [digit_char (n div 10), digit_char (n mod 10)]
      else [digit_char (n div 100), digit_char (n div 10 mod 10), digit_char (n mod 10)])"

fun reply_display :: "reply \<Rightarrow> string" where
  "reply_display Succeeded = ''Succeeded''"
| "reply_display AddressTypeNotSupported = ''Address type not supported''"
| "reply_display CommandNotSupported = ''Command not supported''"
| "reply_display ConnectionNotAllowed = ''Connection not allowed''"
| "reply_display ConnectionRefused = ''Connection refused''"
| "reply_display GeneralFailure = ''General failure''"
| "reply_display HostUnreachable = ''Host unreachable''"
| "reply_display NetworkUnreachable = ''Network unreachable''"
| "reply_display TtlExpired = ''TTL expired''"
| "reply_display (OtherReply u) = ''Other reply ('' @ u8_to_string u @ '')''"

section \<open>Messages\<close>

text \<open>
  The connection: \<open>rx\<close> are the bytes the peer sends, \<open>rx_end\<close> the error after them (\<open>None\<close> is end
  of stream), \<open>tx\<close> the bytes written, \<open>tx_errs\<close> the outcomes of the coming \<open>write_all\<close> calls
  (\<open>None\<close>, and an exhausted list, is success).
\<close>

record duplex =
  rx :: bytes
  rx_end :: "io_error option"
  tx :: bytes
  tx_errs :: "io_error option list"

definition read_exact :: "nat \<Rightarrow> duplex \<Rightarrow> bytes io_result \<times> duplex" where
  "read_exact n s =
     (if n \<le> length (rx s) then (Ok (take n (rx s)), s\<lparr>rx := drop n (rx s)\<rparr>)
      else (Err (case rx_end s of Some e \<Rightarrow> e | None \<Rightarrow> IoError UnexpectedEof ''early eof''),
            s\<lparr>rx := []\<rparr>))"

definition write_all :: "bytes \<Rightarrow> duplex \<Rightarrow> unit io_result \<times> duplex" where
  "write_all buf s =
     (case tx_errs s of
        Some e # errs \<Rightarrow> (Err e, s\<lparr>tx_errs := errs\<rparr>)
      | None # errs \<Rightarrow> (Ok (), s\<lparr>tx := tx s @ buf, tx_errs := errs\<rparr>)
      | [] \<Rightarrow> (Ok (), s\<lparr>tx := tx s @ buf\<rparr>))"

record handshake_request =
  hs_method :: bytes

definition handshake_request_bytes :: "handshake_request \<Rightarrow> bytes" where
  "handshake_request_bytes r =
     [SOCKS5_VERSION] @ [of_nat (length (hs_method r))] @ hs_method r"

definition handshake_write_to :: "handshake_request \<Rightarrow> duplex \<Rightarrow> unit io_result \<times> duplex" where
  "handshake_write_to r = write_all (handshake_request_bytes r)"

record handshake_response =
  choose_method :: byte

definition handshake_read_from :: "duplex \<Rightarrow> handshake_response io_result \<times> duplex" where
  "handshake_read_from s =
     (case read_exact 2 s of
        (Err e, s') \<Rightarrow> (Err e, s')
      | (Panic m, s') \<Rightarrow> (Panic m, s')
      | (Ok buf, s') \<Rightarrow>
        if buf ! 0 \<noteq> SOCKS5_VERSION
        then (Err (IoError InvalidData ''unknown sock5 version''), s')
        else (Ok \<lparr>choose_method = buf ! 1\<rparr>, s'))"

datatype socks5_addr = SockAddr socket_addr | Domain string u16

record socks5_tcp_request =
  req_command :: byte
  req_addr :: socks5_addr

definition tcp_request_bytes :: "socks5_tcp_request \<Rightarrow> bytes" where
  "tcp_request_bytes r =
     [SOCKS5_VERSION, req_command r, 0x00] @
     (case req_addr r of
        SockAddr (V4 a) \<Rightarrow>
          [SOCKS5_ADDR_TYPE_IPV4] @ ipv4_octets (v4_ip a) @ u16_to_be_bytes (v4_port a)
      | SockAddr (V6 a) \<Rightarrow>
          [SOCKS5_ADDR_TYPE_IPV6] @ ipv6_octets (v6_ip a) @ u16_to_be_bytes (v6_port a)
      | Domain domain port \<Rightarrow>
          [SOCKS5_ADDR_TYPE_DOMAIN_NAME] @ [of_nat (length domain)] @ str_bytes domain
            @ u16_to_be_bytes port)"

definition tcp_request_write_to :: "socks5_tcp_request \<Rightarrow> duplex \<Rightarrow> unit io_result \<times> duplex" where
  "tcp_request_write_to r = write_all (tcp_request_bytes r)"

record socks5_tcp_response =
  resp_reply :: reply
  resp_addr :: socket_addr

definition read_u16 :: "bytes \<Rightarrow> nat \<Rightarrow> u16" where
  "read_u16 buf i = u16_from_be_bytes [buf ! i, buf ! (i + 1)]"

definition read_ipv6_addr :: "bytes \<Rightarrow> socket_addr" where
  "read_ipv6_addr buf =
     V6 \<lparr>v6_ip = Ipv6Addr (read_u16 buf 0) (read_u16 buf 2) (read_u16 buf 4) (read_u16 buf 6)
                          (read_u16 buf 8) (read_u16 buf 10) (read_u16 buf 12) (read_u16 buf 14),
         v6_port = read_u16 buf 16, v6_flowinfo = 0, v6_scope_id = 0\<rparr>"

definition read_ipv4_addr :: "bytes \<Rightarrow> socket_addr" where
  "read_ipv4_addr buf =
     V4 \<lparr>v4_ip = Ipv4Addr (buf ! 0) (buf ! 1) (buf ! 2) (buf ! 3), v4_port = read_u16 buf 4\<rparr>"

definition tcp_response_read_from :: "duplex \<Rightarrow> socks5_tcp_response io_result \<times> duplex" where
  "tcp_response_read_from s =
     (case read_exact 4 s of
        (Err e, s1) \<Rightarrow> (Err e, s1)
      | (Panic m, s1) \<Rightarrow> (Panic m, s1)
      | (Ok buf, s1) \<Rightarrow>
        if buf ! 0 \<noteq> SOCKS5_VERSION
        then (Err (IoError InvalidData ''invalid version data.''), s1)
        else if buf ! 3 = SOCKS5_ADDR_TYPE_IPV4 then
          (case read_exact 6 s1 of
             (Err e, s2) \<Rightarrow> (Err e, s2)
           | (Panic m, s2) \<Rightarrow> (Panic m, s2)
           | (Ok buf4, s2) \<Rightarrow>
             (Ok \<lparr>resp_reply = reply_from_u8 (buf ! 1), resp_addr = read_ipv4_addr buf4\<rparr>, s2))
        else if buf ! 3 = SOCKS5_ADDR_TYPE_IPV6 then
          (case read_exact 18 s1 of
             (Err e, s2) \<Rightarrow> (Err e, s2)
           | (Panic m, s2) \<Rightarrow> (Panic m, s2)
           | (Ok buf6, s2) \<Rightarrow>
             (Ok \<lparr>resp_reply = reply_from_u8 (buf ! 1), resp_addr = read_ipv6_addr buf6\<rparr>, s2))
        else (Panic ''not implemented: can be reached!'', s1))"

section \<open>The client handshake\<close>

definition socks5_negotiate :: "socks5_addr \<Rightarrow> duplex \<Rightarrow> unit io_result \<times> duplex" where
  "socks5_negotiate addr s0 =
     (case handshake_write_to \<lparr>hs_method = [SOCKS5_AUTH_METHOD_NONE]\<rparr> s0 of
        (Err e, s1) \<Rightarrow> (Err e, s1)
      | (Panic m, s1) \<Rightarrow> (Panic m, s1)
      | (Ok _, s1) \<Rightarrow>
     (case handshake_read_from s1 of
        (Err e, s2) \<Rightarrow> (Err e, s2)
      | (Panic m, s2) \<Rightarrow> (Panic m, s2)
      | (Ok resp, s2) \<Rightarrow>
     if choose_method resp \<noteq> SOCKS5_AUTH_METHOD_NONE
     then (Err (IoError InvalidData ''choose error socks5 method''), s2)
     else
     (case tcp_request_write_to \<lparr>req_command = SOCKS5_CMD_TCP_CONNECT, req_addr = addr\<rparr> s2 of
        (Err e, s3) \<Rightarrow> (Err e, s3)
      | (Panic m, s3) \<Rightarrow> (Panic m, s3)
      | (Ok _, s3) \<Rightarrow>
     (case tcp_response_read_from s3 of
        (Err e, s4) \<Rightarrow> (Err e, s4)
      | (Panic m, s4) \<Rightarrow> (Panic m, s4)
      | (Ok tcp_resp, s4) \<Rightarrow>
     if resp_reply tcp_resp = Succeeded then (Ok (), s4)
     else (Err (IoError Other (''reply error: '' @ reply_display (resp_reply tcp_resp))), s4)))))"

text \<open>\<open>tcp_connect\<close> is \<open>TcpStream::connect\<close>; the stream is kept only when the negotiation succeeds.\<close>

definition sock5_connect ::
    "(socket_addr \<Rightarrow> duplex io_result) \<Rightarrow> socks5_addr \<Rightarrow> socket_addr \<Rightarrow> duplex io_result" where
  "sock5_connect tcp_connect addr proxy =
     (case tcp_connect proxy of
        Err e \<Rightarrow> Err e
      | Panic m \<Rightarrow> Panic m
      | Ok s \<Rightarrow>
        (case socks5_negotiate addr s of
           (Ok _, s') \<Rightarrow> Ok s' | (Err e, _) \<Rightarrow> Err e | (Panic m, _) \<Rightarrow> Panic m))"

section \<open>The formats of RFC 1928\<close>

text \<open>A server's reading of a request, and its writing of a reply.\<close>

definition rfc_request_dec :: "bytes \<Rightarrow> (socks5_tcp_request \<times> bytes) option" where
  "rfc_request_dec bs =
     (case bs of
        ver # cmd # rsv # atyp # rest \<Rightarrow>
          if ver \<noteq> 5 then None
          else if atyp = 1 then
            (if length rest < 6 then None
             else Some (\<lparr>req_command = cmd, req_addr = SockAddr (read_ipv4_addr (take 6 rest))\<rparr>,
                        drop 6 rest))
          else if atyp = 4 then
            (if length rest < 18 then None
             else Some (\<lparr>req_command = cmd, req_addr = SockAddr (read_ipv6_addr (take 18 rest))\<rparr>,
                        drop 18 rest))
          else if atyp = 3 then
            (case rest of
               [] \<Rightarrow> None
             | n # rest' \<Rightarrow>
               if length rest' < unat n + 2 then None
               else Some (\<lparr>req_command = cmd,
                           req_addr = Domain (bytes_str (take (unat n) rest'))
                                        (read_u16 rest' (unat n))\<rparr>,
                          drop (unat n + 2) rest'))
          else None
      | _ \<Rightarrow> None)"

fun addr_encodable :: "socks5_addr \<Rightarrow> bool" where
  "addr_encodable (SockAddr (V4 a)) = True"
| "addr_encodable (SockAddr (V6 a)) = (v6_flowinfo a = 0 \<and> v6_scope_id a = 0)"
| "addr_encodable (Domain d p) = (length d < 256)"

definition rfc_addr_bytes :: "socket_addr \<Rightarrow> bytes" where
  "rfc_addr_bytes sa =
     (case sa of
        V4 a \<Rightarrow> [1] @ ipv4_octets (v4_ip a) @ u16_to_be_bytes (v4_port a)
      | V6 a \<Rightarrow> [4] @ ipv6_octets (v6_ip a) @ u16_to_be_bytes (v6_port a))"

definition rfc_response_bytes :: "socks5_tcp_response \<Rightarrow> bytes" where
  "rfc_response_bytes r = [5, reply_as_u8 (resp_reply r), 0] @ rfc_addr_bytes (resp_addr r)"

text \<open>A reply in canonical form: known codes use their own constructor.\<close>

definition reply_canonical :: "reply \<Rightarrow> bool" where
  "reply_canonical r \<longleftrightarrow> reply_from_u8 (reply_as_u8 r) = r"

section \<open>Reading and writing\<close>

lemma read_exact_append [codec_simps]:
  "length xs = n \<Longrightarrow> rx s = xs @ rest \<Longrightarrow> read_exact n s = (Ok xs, s\<lparr>rx := rest\<rparr>)"
  by (simp add: read_exact_def)

lemma read_exact_short:
  "length (rx s) < n \<Longrightarrow> \<exists>e. read_exact n s = (Err e, s\<lparr>rx := []\<rparr>)"
  by (simp add: read_exact_def)

lemma read_exact_cases:
  obtains (full) "n \<le> length (rx s)" "read_exact n s = (Ok (take n (rx s)), s\<lparr>rx := drop n (rx s)\<rparr>)"
  | (short) e where "length (rx s) < n" "read_exact n s = (Err e, s\<lparr>rx := []\<rparr>)"
  using read_exact_short by (cases "n \<le> length (rx s)") (auto simp: read_exact_def)

lemma read_u16_nth: "i + 1 < length bs \<Longrightarrow> read_u16 bs i = u16_from_be_bytes (take 2 (drop i bs))"
  by (simp add: read_u16_def take_Suc_conv_app_nth numeral_2_eq_2 nth_append)

lemma read_u16_append:
  "length xs = i \<Longrightarrow> read_u16 (xs @ u16_to_be_bytes p @ ys) i = p"
proof -
  assume "length xs = i"
  then have "read_u16 (xs @ u16_to_be_bytes p @ ys) i = u16_from_be_bytes (u16_to_be_bytes p)"
    by (subst read_u16_nth) simp_all
  then show ?thesis by simp
qed

lemma read_ipv4_octets:
  "read_ipv4_addr (ipv4_octets (v4_ip a) @ u16_to_be_bytes (v4_port a)) = V4 a"
proof -
  have "read_u16 (ipv4_octets (v4_ip a) @ u16_to_be_bytes (v4_port a)) 4 = v4_port a"
    using read_u16_append [of "ipv4_octets (v4_ip a)" 4 "v4_port a" "[]"] by simp
  then show ?thesis
    by (cases "v4_ip a") (simp add: read_ipv4_addr_def)
qed

lemma read_ipv6_octets:
  assumes "v6_flowinfo a = 0" "v6_scope_id a = 0"
  shows "read_ipv6_addr (ipv6_octets (v6_ip a) @ u16_to_be_bytes (v6_port a)) = V6 a"
proof -
  have "read_u16 (concat (map u16_to_be_bytes ws) @ ys) (2 * k) = ws ! k" if "k < length ws" for ws ys k
    using that
  proof (induction ws arbitrary: k)
    case (Cons w ws)
    then show ?case
    proof (cases k)
      case 0
      then show ?thesis using read_u16_append [of "[]" 0 w "concat (map u16_to_be_bytes ws) @ ys"] by simp
    next
      case (Suc j)
      have "read_u16 (u16_to_be_bytes w @ zs) (i + 2) = read_u16 zs i" for zs i
        by (simp add: read_u16_def nth_append)
      from this [of "concat (map u16_to_be_bytes ws) @ ys" "2 * j"] Suc Cons show ?thesis
        by simp
    qed
  qed simp
  note seg = this
  let ?ws = "ipv6_segments (v6_ip a)"
  have len: "length ?ws = 8" by (cases "v6_ip a") simp
  have port: "read_u16 (ipv6_octets (v6_ip a) @ u16_to_be_bytes (v6_port a)) 16 = v6_port a"
    using read_u16_append [of "ipv6_octets (v6_ip a)" 16 "v6_port a" "[]"] by simp
  have r: "read_u16 (ipv6_octets (v6_ip a) @ u16_to_be_bytes (v6_port a)) (2 * k) = ?ws ! k"
    if "k < 8" for k
    using seg [of k ?ws] that len by (simp add: ipv6_octets_def)
  show ?thesis
    using assms r [of 0] r [of 1] r [of 2] r [of 3] r [of 4] r [of 5] r [of 6] r [of 7] port
    by (cases "v6_ip a") (simp add: read_ipv6_addr_def)
qed

section \<open>Round trips\<close>

lemma rfc_request_dec_enc:
  assumes "addr_encodable (req_addr r)"
  shows "rfc_request_dec (tcp_request_bytes r @ rest) = Some (r, rest)"
proof (cases "req_addr r")
  case (SockAddr sa)
  show ?thesis
  proof (cases sa)
    case (V4 a)
    then show ?thesis
      using SockAddr read_ipv4_octets [of a]
      by (simp add: tcp_request_bytes_def rfc_request_dec_def socks5_consts)
  next
    case (V6 a)
    then have "v6_flowinfo a = 0" "v6_scope_id a = 0" using SockAddr assms by simp_all
    from read_ipv6_octets [OF this] V6 show ?thesis
      using SockAddr by (simp add: tcp_request_bytes_def rfc_request_dec_def socks5_consts)
  qed
next
  case (Domain d p)
  then have "unat (of_nat (length d) :: byte) = length d" using assms by (simp add: unat_of_nat)
  moreover have "read_u16 (str_bytes d @ u16_to_be_bytes p @ rest) (length d) = p"
    by (rule read_u16_append) simp
  ultimately show ?thesis
    using Domain by (simp add: tcp_request_bytes_def rfc_request_dec_def socks5_consts)
qed

interpretation socks5_request: stream_codec "\<lambda>r. addr_encodable (req_addr r)" tcp_request_bytes
    rfc_request_dec
  by unfold_locales (rule rfc_request_dec_enc)

text \<open>The client's reading of a reply as a decoder, for the codec contract.\<close>

definition response_dec :: "bytes \<Rightarrow> (socks5_tcp_response \<times> bytes) option" where
  "response_dec bs =
     (case tcp_response_read_from \<lparr>rx = bs, rx_end = None, tx = [], tx_errs = []\<rparr> of
        (Ok r, s) \<Rightarrow> Some (r, rx s) | _ \<Rightarrow> None)"

definition response_valid :: "socks5_tcp_response \<Rightarrow> bool" where
  "response_valid r \<longleftrightarrow> reply_canonical (resp_reply r) \<and> addr_encodable (SockAddr (resp_addr r))"

lemma tcp_response_read_rfc:
  assumes "response_valid r" "rx s = rfc_response_bytes r @ rest"
  shows "tcp_response_read_from s = (Ok r, s\<lparr>rx := rest\<rparr>)"
proof (cases "resp_addr r")
  case (V4 a)
  then show ?thesis
    using assms read_ipv4_octets [of a]
    by (simp add: tcp_response_read_from_def rfc_response_bytes_def rfc_addr_bytes_def socks5_consts
        read_exact_def response_valid_def reply_canonical_def)
next
  case (V6 a)
  then show ?thesis
    using assms read_ipv6_octets [of a]
    by (simp add: tcp_response_read_from_def rfc_response_bytes_def rfc_addr_bytes_def socks5_consts
        read_exact_def response_valid_def reply_canonical_def)
qed

interpretation socks5_response: stream_codec response_valid rfc_response_bytes response_dec
  by unfold_locales (simp add: response_dec_def tcp_response_read_rfc)

section \<open>The negotiation, by what the proxy sends\<close>

lemma write_all_ok [simp]: "tx_errs s = [] \<Longrightarrow> write_all buf s = (Ok (), s\<lparr>tx := tx s @ buf\<rparr>)"
  by (simp add: write_all_def)

abbreviation connect_request :: "socks5_addr \<Rightarrow> socks5_tcp_request" where
  "connect_request a \<equiv> \<lparr>req_command = SOCKS5_CMD_TCP_CONNECT, req_addr = a\<rparr>"

abbreviation greeting :: bytes where "greeting \<equiv> [5, 1, 0]"

lemma greeting_bytes: "handshake_request_bytes \<lparr>hs_method = [0]\<rparr> = greeting"
  by (simp add: handshake_request_bytes_def socks5_consts)

lemma handshake_read_short: "length (rx s) < 2 \<Longrightarrow> \<exists>e t. handshake_read_from s = (Err e, t) \<and> tx t = tx s"
  using read_exact_short [of s 2] by (auto simp: handshake_read_from_def)

lemma handshake_read_two:
  "rx s = a # b # bs \<Longrightarrow> handshake_read_from s =
     ((if a \<noteq> 5 then Err (IoError InvalidData ''unknown sock5 version'') else Ok \<lparr>choose_method = b\<rparr>),
      s\<lparr>rx := bs\<rparr>)"
  by (simp add: handshake_read_from_def read_exact_def socks5_consts)

lemma response_read_short:
  "length (rx s) < 4 \<Longrightarrow> \<exists>e t. tcp_response_read_from s = (Err e, t) \<and> tx t = tx s"
  using read_exact_short [of s 4] by (auto simp: tcp_response_read_from_def)

lemma response_read_body:
  assumes "rx s = ver # rep # rsv # atyp # bs"
  shows "tcp_response_read_from s =
    (if ver \<noteq> 5 then (Err (IoError InvalidData ''invalid version data.''), s\<lparr>rx := bs\<rparr>)
     else if atyp = 1 then
       (case read_exact 6 (s\<lparr>rx := bs\<rparr>) of
          (Err e, t) \<Rightarrow> (Err e, t) | (Panic m, t) \<Rightarrow> (Panic m, t)
        | (Ok b, t) \<Rightarrow> (Ok \<lparr>resp_reply = reply_from_u8 rep, resp_addr = read_ipv4_addr b\<rparr>, t))
     else if atyp = 4 then
       (case read_exact 18 (s\<lparr>rx := bs\<rparr>) of
          (Err e, t) \<Rightarrow> (Err e, t) | (Panic m, t) \<Rightarrow> (Panic m, t)
        | (Ok b, t) \<Rightarrow> (Ok \<lparr>resp_reply = reply_from_u8 rep, resp_addr = read_ipv6_addr b\<rparr>, t))
     else (Panic ''not implemented: can be reached!'', s\<lparr>rx := bs\<rparr>))"
  using assms by (simp add: tcp_response_read_from_def read_exact_def socks5_consts)

text \<open>What the negotiation does once the method is agreed.\<close>

definition socks5_finish :: "duplex \<Rightarrow> unit io_result \<times> duplex" where
  "socks5_finish s =
     (case tcp_response_read_from s of
        (Err e, t) \<Rightarrow> (Err e, t)
      | (Panic m, t) \<Rightarrow> (Panic m, t)
      | (Ok r, t) \<Rightarrow>
        if resp_reply r = Succeeded then (Ok (), t)
        else (Err (IoError Other (''reply error: '' @ reply_display (resp_reply r))), t))"

lemma negotiate_two:
  assumes "tx_errs s = []" "rx s = a # b # bs"
  shows "socks5_negotiate addr s =
    (if a \<noteq> 5 then (Err (IoError InvalidData ''unknown sock5 version''),
                    s\<lparr>rx := bs, tx := tx s @ greeting\<rparr>)
     else if b \<noteq> 0 then (Err (IoError InvalidData ''choose error socks5 method''),
                         s\<lparr>rx := bs, tx := tx s @ greeting\<rparr>)
     else socks5_finish (s\<lparr>rx := bs, tx := tx s @ greeting @ tcp_request_bytes (connect_request addr)\<rparr>))"
  using assms
  by (simp add: socks5_negotiate_def socks5_finish_def handshake_write_to_def greeting_bytes
      handshake_read_two tcp_request_write_to_def SOCKS5_AUTH_METHOD_NONE_def)

lemma negotiate_short:
  assumes "tx_errs s = []" "length (rx s) < 2"
  shows "\<exists>e t. socks5_negotiate addr s = (Err e, t)"
  using assms handshake_read_short [of "s\<lparr>tx := tx s @ greeting\<rparr>"]
  by (auto simp: socks5_negotiate_def handshake_write_to_def greeting_bytes
      SOCKS5_AUTH_METHOD_NONE_def)

lemma list_split2: "length xs < 2 \<or> (\<exists>a b ys. xs = a # b # ys)"
  by (cases xs; cases "tl xs") auto

lemma list_split4: "length xs < 4 \<or> (\<exists>a b c d ys. xs = a # b # c # d # ys)"
  by (cases xs; cases "tl xs"; cases "tl (tl xs)"; cases "tl (tl (tl xs))") auto

lemma reply_from_u8_Succeeded: "reply_from_u8 c = Succeeded \<longleftrightarrow> c = 0"
  by (simp add: reply_from_u8_def)

text \<open>
  A reply that grants the connection: version 5, code 0, any reserved byte and an IPv4 or IPv6 bound
  address of the right length.
\<close>

definition granted :: "bytes \<Rightarrow> bool" where
  "granted resp \<longleftrightarrow> (\<exists>rsv body. resp = [5, 0, rsv, 1] @ body \<and> length body = 6
                        \<or> resp = [5, 0, rsv, 4] @ body \<and> length body = 18)"

lemma socks5_finish_ok:
  "socks5_finish s = (Ok (), t) \<longleftrightarrow> (\<exists>resp. granted resp \<and> rx s = resp @ rx t \<and> t = s\<lparr>rx := rx t\<rparr>)"
proof
  assume ok: "socks5_finish s = (Ok (), t)"
  then have "\<not> length (rx s) < 4"
    using response_read_short [of s] by (auto simp: socks5_finish_def)
  then obtain ver rep rsv atyp bs where rx: "rx s = ver # rep # rsv # atyp # bs"
    using list_split4 by blast
  show "\<exists>resp. granted resp \<and> rx s = resp @ rx t \<and> t = s\<lparr>rx := rx t\<rparr>"
  proof (cases "atyp = 1")
    case True
    with ok rx have v: "ver = 5" "6 \<le> length bs" "rep = 0" "t = s\<lparr>rx := drop 6 bs\<rparr>"
      by (auto simp: socks5_finish_def response_read_body read_exact_def reply_from_u8_Succeeded
          split: if_splits)
    then have "granted ([5, 0, rsv, 1] @ take 6 bs)" by (simp add: granted_def)
    with v rx True show ?thesis by (intro exI [of _ "[5, 0, rsv, 1] @ take 6 bs"]) simp
  next
    case False
    with ok rx have v: "ver = 5" "18 \<le> length bs" "rep = 0" "t = s\<lparr>rx := drop 18 bs\<rparr>" "atyp = 4"
      by (auto simp: socks5_finish_def response_read_body read_exact_def reply_from_u8_Succeeded
          split: if_splits)
    then have "granted ([5, 0, rsv, 4] @ take 18 bs)" by (simp add: granted_def)
    with v rx show ?thesis by (intro exI [of _ "[5, 0, rsv, 4] @ take 18 bs"]) simp
  qed
next
  assume "\<exists>resp. granted resp \<and> rx s = resp @ rx t \<and> t = s\<lparr>rx := rx t\<rparr>"
  then obtain resp where "granted resp" "rx s = resp @ rx t" and t: "t = s\<lparr>rx := rx t\<rparr>" by blast
  then show "socks5_finish s = (Ok (), t)"
    by (subst t) (auto simp: granted_def socks5_finish_def response_read_body read_exact_def
        reply_from_u8_Succeeded)
qed

lemma socks5_finish_panic:
  "is_panic (fst (socks5_finish s)) \<longleftrightarrow>
   (\<exists>rep rsv atyp bs. rx s = 5 # rep # rsv # atyp # bs \<and> atyp \<notin> {1, 4})"
proof (cases "length (rx s) < 4")
  case True
  then show ?thesis using response_read_short [of s] by (auto simp: socks5_finish_def)
next
  case False
  then obtain ver rep rsv atyp bs where rx: "rx s = ver # rep # rsv # atyp # bs"
    using list_split4 by blast
  then show ?thesis
    by (auto simp: socks5_finish_def response_read_body read_exact_def)
qed

lemma socks5_finish_tx: "tx (snd (socks5_finish s)) = tx s"
proof (cases "length (rx s) < 4")
  case True
  then show ?thesis using response_read_short [of s] by (auto simp: socks5_finish_def)
next
  case False
  then obtain ver rep rsv atyp bs where rx: "rx s = ver # rep # rsv # atyp # bs"
    using list_split4 by blast
  then show ?thesis
    by (auto simp: socks5_finish_def response_read_body read_exact_def)
qed

lemma negotiate_ok_iff:
  assumes "tx_errs s = []"
  shows "socks5_negotiate addr s = (Ok (), t) \<longleftrightarrow>
    (\<exists>resp. granted resp \<and> rx s = [5, 0] @ resp @ rx t
       \<and> t = s\<lparr>rx := rx t, tx := tx s @ greeting @ tcp_request_bytes (connect_request addr)\<rparr>)"
proof (cases "length (rx s) < 2")
  case True
  then show ?thesis using negotiate_short [OF assms True, of addr] by auto
next
  case False
  then obtain a b bs where rx: "rx s = a # b # bs" using list_split2 by blast
  have upd: "s\<lparr>rx := x, tx := y\<rparr> = s\<lparr>tx := y, rx := x\<rparr>" for x y by simp
  show ?thesis
    unfolding upd by (auto simp: negotiate_two [OF assms rx] socks5_finish_ok rx)
qed

section \<open>Properties\<close>



text \<open>
  C19: the length byte of a domain wraps. For a domain of 256 bytes or more the server reads another,
  strictly shorter name and finds unread bytes after the request.
\<close>

theorem socks5_long_domain_truncated:
  assumes "256 \<le> length d"
  shows "\<exists>p' rest. rfc_request_dec (tcp_request_bytes \<lparr>req_command = c, req_addr = Domain d p\<rparr>) =
      Some (\<lparr>req_command = c, req_addr = Domain (take (length d mod 256) d) p'\<rparr>, rest)
    \<and> take (length d mod 256) d \<noteq> d \<and> rest \<noteq> []"
proof -
  let ?n = "length d mod 256"
  have n: "unat (of_nat (length d) :: byte) = ?n" by (simp add: unat_of_nat)
  have lt: "?n < length d"
    using assms mod_less_divisor [of 256 "length d"] by linarith
  have "bytes_str (take ?n (str_bytes d @ u16_to_be_bytes p)) = take ?n d"
    using lt by simp
  then show ?thesis
    using lt by (auto simp: rfc_request_dec_def tcp_request_bytes_def socks5_consts n)
qed

theorem socks5_long_domain_truncated_witness:
  "\<exists>p' rest. rfc_request_dec (tcp_request_bytes
       \<lparr>req_command = 1, req_addr = Domain (replicate 257 CHR ''a'') 80\<rparr>) =
     Some (\<lparr>req_command = 1, req_addr = Domain ''a'' p'\<rparr>, rest) \<and> rest \<noteq> []"
proof -
  have eq: "take (length (replicate 257 CHR ''a'') mod 256) (replicate 257 CHR ''a'') = ''a''"
    by simp
  show ?thesis
    using socks5_long_domain_truncated [of "replicate 257 CHR ''a''" 1 80] unfolding eq by auto
qed

text \<open>
  A server's reply with an IPv4 or IPv6 bound address is read back exactly: the reply code, the
  address and the port are those the server sent and the bytes after the reply are left unread.
\<close>

theorem socks5_response_decode:
  assumes "response_valid r" "rx s = rfc_response_bytes r @ rest"
  shows "tcp_response_read_from s = (Ok r, s\<lparr>rx := rest\<rparr>)"
  using assms by (rule tcp_response_read_rfc)

theorem socks5_response_decode_witness:
  "tcp_response_read_from
     \<lparr>rx = [5, 0, 0, 1, 10, 0, 0, 1, 31, 144, 77], rx_end = None, tx = [], tx_errs = []\<rparr> =
   (Ok \<lparr>resp_reply = Succeeded, resp_addr = V4 \<lparr>v4_ip = Ipv4Addr 10 0 0 1, v4_port = 8080\<rparr>\<rparr>,
    \<lparr>rx = [77], rx_end = None, tx = [], tx_errs = []\<rparr>)"
  using socks5_response_decode [of
      "\<lparr>resp_reply = Succeeded, resp_addr = V4 \<lparr>v4_ip = Ipv4Addr 10 0 0 1, v4_port = 8080\<rparr>\<rparr>"
      "\<lparr>rx = [5, 0, 0, 1, 10, 0, 0, 1, 31, 144, 77], rx_end = None, tx = [], tx_errs = []\<rparr>" "[77]"]
  by (simp add: response_valid_def reply_canonical_def reply_from_u8_def rfc_response_bytes_def
      rfc_addr_bytes_def u16_to_be_bytes_def codec_simps)

text \<open>
  C17: the negotiation succeeds exactly when the proxy picks "no authentication" in a version 5
  greeting and then grants the request; it has then written the greeting and the connect request
  and has read exactly the two answers, so the first unread byte is the first byte of the tunnelled
  stream.
\<close>

theorem socks5_negotiate_ok:
  assumes "tx_errs s = []"
  shows "socks5_negotiate addr s = (Ok (), t) \<longleftrightarrow>
    (\<exists>resp. granted resp \<and> rx s = [5, 0] @ resp @ rx t
       \<and> t = s\<lparr>rx := rx t, tx := tx s @ greeting @ tcp_request_bytes (connect_request addr)\<rparr>)"
  by (rule negotiate_ok_iff [OF assms])

theorem socks5_negotiate_ok_witness:
  "socks5_negotiate (Domain ''go.dev'' 443)
     \<lparr>rx = [5, 0, 5, 0, 0, 1, 0, 0, 0, 0, 0, 0, 72], rx_end = None, tx = [], tx_errs = []\<rparr> =
   (Ok (), \<lparr>rx = [72], rx_end = None,
      tx = greeting @ tcp_request_bytes (connect_request (Domain ''go.dev'' 443)), tx_errs = []\<rparr>)"
proof -
  have "granted [5, 0, 0, 1, 0, 0, 0, 0, 0, 0]" by (simp add: granted_def)
  then show ?thesis by (subst socks5_negotiate_ok) auto
qed

text \<open>
  The destination is disclosed only to a proxy that agreed to the method: whatever happens, the
  bytes written are nothing, the greeting, or the greeting and the connect request, the last only
  after the proxy answered with version 5 and "no authentication".
\<close>

theorem socks5_negotiate_transcript:
  "tx (snd (socks5_negotiate addr s)) = tx s
   \<or> tx (snd (socks5_negotiate addr s)) = tx s @ greeting
   \<or> (tx (snd (socks5_negotiate addr s)) =
        tx s @ greeting @ tcp_request_bytes (connect_request addr) \<and> (\<exists>rest. rx s = [5, 0] @ rest))"
proof -
  obtain g1 s1 where w1: "write_all greeting s = (g1, s1)" by fastforce
  then have s1: "rx s1 = rx s" "tx s1 = tx s \<or> tx s1 = tx s @ greeting"
    "\<And>u. g1 = Ok u \<Longrightarrow> tx s1 = tx s @ greeting"
    by (auto simp: write_all_def split: list.splits option.splits)
  have neg: "socks5_negotiate addr s =
    (case g1 of Err e \<Rightarrow> (Err e, s1) | Panic m \<Rightarrow> (Panic m, s1) | Ok _ \<Rightarrow>
      (case handshake_read_from s1 of
         (Err e, s2) \<Rightarrow> (Err e, s2)
       | (Panic m, s2) \<Rightarrow> (Panic m, s2)
       | (Ok resp, s2) \<Rightarrow>
         if choose_method resp \<noteq> 0
         then (Err (IoError InvalidData ''choose error socks5 method''), s2)
         else
           (case write_all (tcp_request_bytes (connect_request addr)) s2 of
              (Err e, s3) \<Rightarrow> (Err e, s3)
            | (Panic m, s3) \<Rightarrow> (Panic m, s3)
            | (Ok _, s3) \<Rightarrow> socks5_finish s3)))"
    unfolding socks5_negotiate_def handshake_write_to_def tcp_request_write_to_def
      SOCKS5_AUTH_METHOD_NONE_def greeting_bytes socks5_finish_def w1 by simp
  show ?thesis
  proof (cases "length (rx s) < 2")
    case True
    then obtain e t where "handshake_read_from s1 = (Err e, t)" "tx t = tx s1"
      using handshake_read_short [of s1] s1(1) by auto
    then show ?thesis using s1 by (auto simp: neg split: result.split)
  next
    case False
    then obtain a b bs where "rx s = a # b # bs" using list_split2 by blast
    then have rx1: "rx s1 = a # b # bs" and rx: "rx s = a # b # bs" using s1(1) by simp_all
    have w2: "fst (write_all req s2) = Ok () \<and> tx (snd (write_all req s2)) = tx s2 @ req
        \<or> (\<exists>e. fst (write_all req s2) = Err e) \<and> tx (snd (write_all req s2)) = tx s2" for req s2
      by (auto simp: write_all_def split: list.split option.split)
    show ?thesis
      using s1 w2 [of "tcp_request_bytes (connect_request addr)" "s1\<lparr>rx := bs\<rparr>"] socks5_finish_tx
      by (auto simp: neg handshake_read_two [OF rx1] rx split: result.split prod.split)
  qed
qed

text \<open>
  C18: the client panics exactly when the proxy agrees to the method and answers the request with a
  version 5 reply whose address type is neither IPv4 nor IPv6, in particular with the domain-name
  type that RFC 1928 allows there.
\<close>

theorem socks5_negotiate_panic:
  assumes "tx_errs s = []"
  shows "is_panic (fst (socks5_negotiate addr s)) \<longleftrightarrow>
    (\<exists>rep rsv atyp rest. rx s = [5, 0] @ [5, rep, rsv, atyp] @ rest \<and> atyp \<notin> {1, 4})"
proof (cases "length (rx s) < 2")
  case True
  then show ?thesis using negotiate_short [OF assms True, of addr] by auto
next
  case False
  then obtain a b bs where rx: "rx s = a # b # bs" using list_split2 by blast
  show ?thesis
    by (auto simp: negotiate_two [OF assms rx] socks5_finish_panic rx)
qed

theorem socks5_negotiate_panic_witness:
  "is_panic (fst (socks5_negotiate (Domain ''go.dev'' 443)
     \<lparr>rx = [5, 0, 5, 0, 0, 3, 1, 97, 0, 80], rx_end = None, tx = [], tx_errs = []\<rparr>))"
  by (subst socks5_negotiate_panic) auto

text \<open>
  Reading a reply code and writing it back is the identity on all 256 codes, and the constructor
  for other codes is used for exactly the codes above 8.
\<close>

theorem reply_code_roundtrip:
  "reply_as_u8 (reply_from_u8 code) = code \<and>
   ((\<exists>c. reply_from_u8 code = OtherReply c) \<longleftrightarrow> 8 < code)"
proof -
  have "code \<in> {0, 1, 2, 3, 4, 5, 6, 7, 8} \<longleftrightarrow> code \<le> 8"
  proof -
    have "code \<le> 8 \<longleftrightarrow> unat code \<le> 8" by (simp add: word_le_nat_alt)
    also have "\<dots> \<longleftrightarrow> unat code \<in> {0, 1, 2, 3, 4, 5, 6, 7, 8}" by auto
    also have "\<dots> \<longleftrightarrow> code \<in> {0, 1, 2, 3, 4, 5, 6, 7, 8}" by (simp add: word_unat_eq_iff)
    finally show ?thesis by simp
  qed
  then show ?thesis by (auto simp: reply_from_u8_def)
qed

end
