(* ===== verification/Async_Io.thy ===== *)
theory Async_Io
  imports Rtun_Prelude
begin

text \<open>
  The asynchronous byte streams of \<open>tokio\<close> that the copying code polls. A stream is not code of
  the repository, so it is a parameter: a finite list of its answers to the coming polls, after
  which it answers \<open>Pending\<close>. An answer to a read depends on the room offered, an answer to a write
  on the bytes offered. Universally quantified over the lists, a statement covers every behaviour of
  a stream up to any finite moment. The remaining fields record what happened: the bytes handed
  out and taken, end of stream, completed shutdown, and whether the task's waker was left with the
  stream (\<open>armed\<close>), which is what a \<open>Pending\<close> answer means.
\<close>

record endpoint =
  rd_script :: "(nat \<Rightarrow> bytes io_result poll) list"
  wr_script :: "(bytes \<Rightarrow> nat io_result poll) list"
  fl_script :: "unit io_result poll list"
  sh_script :: "unit io_result poll list"
  delivered :: bytes
  accepted :: bytes
  eof :: bool
  closed :: bool
  armed :: bool

definition poll_read :: "nat \<Rightarrow> endpoint \<Rightarrow> bytes io_result poll \<times> endpoint" where
  "poll_read n ep =
     (case rd_script ep of
        [] \<Rightarrow> (Pending, ep\<lparr>armed := True\<rparr>)
      | f # fs \<Rightarrow>
        (case f n of
           Pending \<Rightarrow> (Pending, ep\<lparr>rd_script := fs, armed := True\<rparr>)
         | Ready (Ok bs) \<Rightarrow>
             (Ready (Ok bs), ep\<lparr>rd_script := fs, delivered := delivered ep @ bs,
                                eof := (eof ep \<or> bs = [] \<and> 0 < n)\<rparr>)
         | Ready r \<Rightarrow> (Ready r, ep\<lparr>rd_script := fs\<rparr>)))"

definition poll_write :: "bytes \<Rightarrow> endpoint \<Rightarrow> nat io_result poll \<times> endpoint" where
  "poll_write bs ep =
     (case wr_script ep of
        [] \<Rightarrow> (Pending, ep\<lparr>armed := True\<rparr>)
      | f # fs \<Rightarrow>
        (case f bs of
           Pending \<Rightarrow> (Pending, ep\<lparr>wr_script := fs, armed := True\<rparr>)
         | Ready (Ok n) \<Rightarrow>
             (Ready (Ok n), ep\<lparr>wr_script := fs, accepted := accepted ep @ take n bs\<rparr>)
         | Ready r \<Rightarrow> (Ready r, ep\<lparr>wr_script := fs\<rparr>)))"

definition poll_flush :: "endpoint \<Rightarrow> unit io_result poll \<times> endpoint" where
  "poll_flush ep =
     (case fl_script ep of
        [] \<Rightarrow> (Pending, ep\<lparr>armed := True\<rparr>)
      | Pending # fs \<Rightarrow> (Pending, ep\<lparr>fl_script := fs, armed := True\<rparr>)
      | Ready r # fs \<Rightarrow> (Ready r, ep\<lparr>fl_script := fs\<rparr>))"

definition poll_shutdown :: "endpoint \<Rightarrow> unit io_result poll \<times> endpoint" where
  "poll_shutdown ep =
     (case sh_script ep of
        [] \<Rightarrow> (Pending, ep\<lparr>armed := True\<rparr>)
      | Pending # fs \<Rightarrow> (Pending, ep\<lparr>sh_script := fs, armed := True\<rparr>)
      | Ready (Ok u) # fs \<Rightarrow> (Ready (Ok u), ep\<lparr>sh_script := fs, closed := True\<rparr>)
      | Ready r # fs \<Rightarrow> (Ready r, ep\<lparr>sh_script := fs\<rparr>))"

text \<open>
  The documented contract of a stream: a read fills at most the room offered, a write takes at most
  the bytes offered, and no call panics.
\<close>

definition reader_ok :: "endpoint \<Rightarrow> bool" where
  "reader_ok ep \<longleftrightarrow> (\<forall>f \<in> set (rd_script ep). \<forall>n.
     (\<forall>bs. f n = Ready (Ok bs) \<longrightarrow> length bs \<le> n) \<and> (\<forall>m. f n \<noteq> Ready (Panic m)))"

definition writer_ok :: "endpoint \<Rightarrow> bool" where
  "writer_ok ep \<longleftrightarrow>
     (\<forall>f \<in> set (wr_script ep). \<forall>bs.
        (\<forall>n. f bs = Ready (Ok n) \<longrightarrow> n \<le> length bs) \<and> (\<forall>m. f bs \<noteq> Ready (Panic m)))
   \<and> (\<forall>m. Ready (Panic m) \<notin> set (fl_script ep)) \<and> (\<forall>m. Ready (Panic m) \<notin> set (sh_script ep))"

definition endpoint_ok :: "endpoint \<Rightarrow> bool" where
  "endpoint_ok ep \<longleftrightarrow> reader_ok ep \<and> writer_ok ep"

text \<open>A stream before its first poll.\<close>

definition fresh :: "endpoint \<Rightarrow> bool" where
  "fresh ep \<longleftrightarrow> delivered ep = [] \<and> accepted ep = [] \<and> \<not> eof ep \<and> \<not> closed ep"

section \<open>What a poll changes\<close>

text \<open>
  One destruction lemma per call. A \<open>Pending\<close> answer leaves the waker, a waker that was left stays,
  the contract is kept and no call touches what the other calls record.
\<close>

lemma poll_readD:
  assumes "poll_read n ep = (q, ep')"
  shows "length (rd_script ep') \<le> length (rd_script ep)"
    "\<And>x. q = Ready x \<Longrightarrow> length (rd_script ep') < length (rd_script ep)"
    "wr_script ep' = wr_script ep" "accepted ep' = accepted ep" "closed ep' = closed ep"
    "delivered ep' = delivered ep @ (case q of Ready (Ok bs) \<Rightarrow> bs | _ \<Rightarrow> [])"
    "eof ep' = (eof ep \<or> q = Ready (Ok []) \<and> 0 < n)"
    "q = Pending \<Longrightarrow> armed ep'" "armed ep \<Longrightarrow> armed ep'"
    "endpoint_ok ep \<Longrightarrow> endpoint_ok ep'" "\<And>m. endpoint_ok ep \<Longrightarrow> q \<noteq> Ready (Panic m)"
    "\<And>bs. endpoint_ok ep \<Longrightarrow> q = Ready (Ok bs) \<Longrightarrow> length bs \<le> n"
  using assms by (auto simp: poll_read_def endpoint_ok_def reader_ok_def writer_ok_def
      split: list.splits poll.splits result.splits)

lemma poll_writeD:
  assumes "poll_write bs ep = (q, ep')"
  shows "length (wr_script ep') \<le> length (wr_script ep)"
    "\<And>x. q = Ready x \<Longrightarrow> length (wr_script ep') < length (wr_script ep)"
    "rd_script ep' = rd_script ep" "delivered ep' = delivered ep" "eof ep' = eof ep"
    "closed ep' = closed ep"
    "accepted ep' = accepted ep @ (case q of Ready (Ok n) \<Rightarrow> take n bs | _ \<Rightarrow> [])"
    "q = Pending \<Longrightarrow> armed ep'" "armed ep \<Longrightarrow> armed ep'"
    "endpoint_ok ep \<Longrightarrow> endpoint_ok ep'" "\<And>m. endpoint_ok ep \<Longrightarrow> q \<noteq> Ready (Panic m)"
    "\<And>n. endpoint_ok ep \<Longrightarrow> q = Ready (Ok n) \<Longrightarrow> n \<le> length bs"
  using assms by (auto simp: poll_write_def endpoint_ok_def reader_ok_def writer_ok_def
      split: list.splits poll.splits result.splits)

lemma poll_flushD:
  assumes "poll_flush ep = (q, ep')"
  shows "rd_script ep' = rd_script ep" "wr_script ep' = wr_script ep" "delivered ep' = delivered ep"
    "accepted ep' = accepted ep" "eof ep' = eof ep" "closed ep' = closed ep"
    "q = Pending \<Longrightarrow> armed ep'" "armed ep \<Longrightarrow> armed ep'"
    "endpoint_ok ep \<Longrightarrow> endpoint_ok ep'" "\<And>m. endpoint_ok ep \<Longrightarrow> q \<noteq> Ready (Panic m)"
  using assms by (auto simp: poll_flush_def endpoint_ok_def reader_ok_def writer_ok_def
      split: list.splits poll.splits)

lemma poll_shutdownD:
  assumes "poll_shutdown ep = (q, ep')"
  shows "rd_script ep' = rd_script ep" "wr_script ep' = wr_script ep" "delivered ep' = delivered ep"
    "accepted ep' = accepted ep" "eof ep' = eof ep" "closed ep' = (closed ep \<or> q = Ready (Ok ()))"
    "q = Pending \<Longrightarrow> armed ep'" "armed ep \<Longrightarrow> armed ep'"
    "endpoint_ok ep \<Longrightarrow> endpoint_ok ep'" "\<And>m. endpoint_ok ep \<Longrightarrow> q \<noteq> Ready (Panic m)"
  using assms by (auto simp: poll_shutdown_def endpoint_ok_def reader_ok_def writer_ok_def
      split: list.splits poll.splits result.splits)

end
