(* ===== verification/Copy.thy ===== *)
theory Copy
  imports Async_Io
begin

text \<open>
  \<open>crates/tun/src/net/copy.rs\<close>: bidirectional copying between two streams. The polling functions
  are translated one by one: \<open>CopyBuf::poll_copy\<close>, \<open>transfer_one_direction\<close>,
  \<open>CopyOneDirection::copy\<close>, \<open>CopyBidirectional::copy\<close> and the two public entry points as sequences
  of polls. Debug assertions are panics. The theory shows that no byte is lost, duplicated or
  reordered, when a direction ends, that the two one-direction loops agree, which polls leave a
  waker behind, and how the idle timer behaves.
\<close>

section \<open>One buffer\<close>

record copy_buf =
  read_done :: bool
  need_flush :: bool
  pos :: nat
  cap :: nat
  amt :: u64
  buf :: bytes

definition copy_buf_new :: "nat \<Rightarrow> copy_buf" where
  "copy_buf_new sz = \<lparr>read_done = False, need_flush = False, pos = 0, cap = 0, amt = 0,
     buf = replicate sz 0\<rparr>"

text \<open>The slice \<open>buf[pos..cap]\<close>.\<close>

definition unsent :: "copy_buf \<Rightarrow> bytes" where
  "unsent cb = take (cap cb - pos cb) (drop (pos cb) (buf cb))"

text \<open>
  The first half of an iteration. \<open>Some\<close> is a return from \<open>poll_copy\<close>; a pending read flushes the
  writer first when something was written since the last flush.
\<close>

definition read_phase ::
    "copy_buf \<Rightarrow> endpoint \<Rightarrow> endpoint
     \<Rightarrow> u64 io_result poll option \<times> copy_buf \<times> endpoint \<times> endpoint" where
  "read_phase cb r w =
     (case poll_read (length (buf cb)) r of
        (Ready (Ok bs), r') \<Rightarrow>
          if bs = [] then (None, cb\<lparr>read_done := True\<rparr>, r', w)
          else (None, cb\<lparr>pos := 0, cap := length bs, buf := bs @ drop (length bs) (buf cb)\<rparr>, r', w)
      | (Ready (Err e), r') \<Rightarrow> (Some (Ready (Err e)), cb, r', w)
      | (Ready (Panic m), r') \<Rightarrow> (Some (Ready (Panic m)), cb, r', w)
      | (Pending, r') \<Rightarrow>
          if need_flush cb then
            (case poll_flush w of
               (Pending, w') \<Rightarrow> (Some Pending, cb, r', w')
             | (Ready (Err e), w') \<Rightarrow> (Some (Ready (Err e)), cb, r', w')
             | (Ready (Panic m), w') \<Rightarrow> (Some (Ready (Panic m)), cb, r', w')
             | (Ready (Ok _), w') \<Rightarrow> (Some Pending, cb\<lparr>need_flush := False\<rparr>, r', w'))
          else (Some Pending, cb, r', w))"

text \<open>The inner \<open>while\<close>: write the slice piece by piece.\<close>

function write_phase :: "copy_buf \<Rightarrow> endpoint \<Rightarrow> unit io_result poll \<times> copy_buf \<times> endpoint" where
  "write_phase cb w =
     (if pos cb < cap cb then
        (case poll_write (unsent cb) w of
           (Pending, w') \<Rightarrow> (Pending, cb, w')
         | (Ready (Err e), w') \<Rightarrow> (Ready (Err e), cb, w')
         | (Ready (Panic m), w') \<Rightarrow> (Ready (Panic m), cb, w')
         | (Ready (Ok n), w') \<Rightarrow>
             if n = 0 then (Ready (Err (IoError WriteZero ''write error to writer.'')), cb, w')
             else write_phase (cb\<lparr>pos := pos cb + n, amt := amt cb + of_nat n, need_flush := True\<rparr>) w')
      else (Ready (Ok ()), cb, w))"
  by pat_completeness auto
termination
  by (relation "measure (\<lambda>(cb, w). cap cb - pos cb)") auto

declare write_phase.simps [simp del]

lemma write_phase_rule [case_names finished pending failed panicked zero step]:
  assumes "\<And>cb w. \<not> pos cb < cap cb \<Longrightarrow> P cb w (Ready (Ok ()), cb, w)"
    and "\<And>cb w w'. pos cb < cap cb \<Longrightarrow> poll_write (unsent cb) w = (Pending, w') \<Longrightarrow>
           P cb w (Pending, cb, w')"
    and "\<And>cb w w' e. pos cb < cap cb \<Longrightarrow> poll_write (unsent cb) w = (Ready (Err e), w') \<Longrightarrow>
           P cb w (Ready (Err e), cb, w')"
    and "\<And>cb w w' m. pos cb < cap cb \<Longrightarrow> poll_write (unsent cb) w = (Ready (Panic m), w') \<Longrightarrow>
           P cb w (Ready (Panic m), cb, w')"
    and "\<And>cb w w'. pos cb < cap cb \<Longrightarrow> poll_write (unsent cb) w = (Ready (Ok 0), w') \<Longrightarrow>
           P cb w (Ready (Err (IoError WriteZero ''write error to writer.'')), cb, w')"
    and "\<And>cb w w' n q. pos cb < cap cb \<Longrightarrow> poll_write (unsent cb) w = (Ready (Ok n), w') \<Longrightarrow> 0 < n \<Longrightarrow>
           P (cb\<lparr>pos := pos cb + n, amt := amt cb + of_nat n, need_flush := True\<rparr>) w' q \<Longrightarrow> P cb w q"
  shows "P cb w (write_phase cb w)"
proof (induction cb w rule: write_phase.induct)
  case (1 cb w)
  show ?case
  proof (cases "pos cb < cap cb")
    case True
    obtain q w' where pw: "poll_write (unsent cb) w = (q, w')" by fastforce
    show ?thesis
    proof (cases "\<exists>n. q = Ready (Ok (Suc n))")
      case step: True
      then obtain n where n: "q = Ready (Ok (Suc n))" by blast
      with 1 True pw have "P (cb\<lparr>pos := pos cb + Suc n, amt := amt cb + of_nat (Suc n), need_flush := True\<rparr>) w'
          (write_phase (cb\<lparr>pos := pos cb + Suc n, amt := amt cb + of_nat (Suc n), need_flush := True\<rparr>) w')"
        by auto
      then have "P cb w (write_phase (cb\<lparr>pos := pos cb + Suc n, amt := amt cb + of_nat (Suc n),
          need_flush := True\<rparr>) w')"
        using assms(6) [OF True pw [unfolded n]] by simp
      with True pw n show ?thesis by (subst write_phase.simps) simp
    next
      case False
      with True pw assms(2-5) [OF True] show ?thesis
        by (subst write_phase.simps) (auto split: poll.split result.split simp: gr0_conv_Suc)
    qed
  next
    case False
    with assms(1) show ?thesis by (subst write_phase.simps) simp
  qed
qed

lemma write_phase_script:
  "length (wr_script (snd (snd (write_phase cb w)))) \<le> length (wr_script w)
   \<and> (fst (write_phase cb w) = Ready (Ok ()) \<and> pos cb < cap cb \<longrightarrow>
      length (wr_script (snd (snd (write_phase cb w)))) < length (wr_script w))"
proof (rule write_phase_rule, goal_cases)
  case (6 cb w w' n q)
  then show ?case using poll_writeD(2) [OF 6(2)] by auto
qed (auto dest: poll_writeD(1))

text \<open>The start of an iteration: read when the buffer is empty and the end was not seen.\<close>

definition begin_phase ::
    "copy_buf \<Rightarrow> endpoint \<Rightarrow> endpoint
     \<Rightarrow> u64 io_result poll option \<times> copy_buf \<times> endpoint \<times> endpoint" where
  "begin_phase cb r w =
     (if pos cb = cap cb \<and> \<not> read_done cb then read_phase cb r w else (None, cb, r, w))"

lemma begin_phase_frame:
  assumes "begin_phase cb r w = (None, cb1, r1, w1)"
  shows "w1 = w" "length (rd_script r1) \<le> length (rd_script r)"
    "pos cb = cap cb \<Longrightarrow> \<not> read_done cb \<Longrightarrow> length (rd_script r1) < length (rd_script r)"
    "pos cb \<noteq> cap cb \<Longrightarrow> cb1 = cb"
  using assms
  by (auto simp: begin_phase_def read_phase_def dest: poll_readD(1,2)
      split: if_splits prod.splits poll.splits result.splits)

lemma poll_copy_decreases:
  assumes "begin_phase cb r w = (None, cb1, r1, w1)" "write_phase cb1 w1 = (Ready (Ok u), cb2, w2)"
    and "\<not> cap cb2 < pos cb2" "pos cb2 = cap cb2 \<longrightarrow> \<not> read_done cb2"
  shows "length (rd_script r1) + length (wr_script w2) < length (rd_script r) + length (wr_script w)"
proof -
  have wr: "length (wr_script w2) \<le> length (wr_script w)"
    and wr': "pos cb1 < cap cb1 \<Longrightarrow> length (wr_script w2) < length (wr_script w)"
    using write_phase_script [of cb1 w1] assms(2) begin_phase_frame(1) [OF assms(1)] by simp_all
  consider (read) "pos cb = cap cb" "\<not> read_done cb" | (rest) "pos cb < cap cb" | (eof) "pos cb = cap cb" "read_done cb"
    | (over) "cap cb < pos cb" by linarith
  then show ?thesis
  proof cases
    case read
    with begin_phase_frame(3) [OF assms(1)] wr show ?thesis by simp
  next
    case rest
    with begin_phase_frame(2,4) [OF assms(1)] wr' show ?thesis by simp
  next
    case eof
    with assms have False by (auto simp: begin_phase_def write_phase.simps)
    then show ?thesis ..
  next
    case over
    with assms have False by (auto simp: begin_phase_def write_phase.simps)
    then show ?thesis ..
  qed
qed

function poll_copy ::
    "copy_buf \<Rightarrow> endpoint \<Rightarrow> endpoint \<Rightarrow> u64 io_result poll \<times> copy_buf \<times> endpoint \<times> endpoint" where
  "poll_copy cb r w =
     (case begin_phase cb r w of
        (Some res, cb1, r1, w1) \<Rightarrow> (res, cb1, r1, w1)
      | (None, cb1, r1, w1) \<Rightarrow>
        (case write_phase cb1 w1 of
           (Pending, cb2, w2) \<Rightarrow> (Pending, cb2, r1, w2)
         | (Ready (Err e), cb2, w2) \<Rightarrow> (Ready (Err e), cb2, r1, w2)
         | (Ready (Panic m), cb2, w2) \<Rightarrow> (Ready (Panic m), cb2, r1, w2)
         | (Ready (Ok _), cb2, w2) \<Rightarrow>
             if cap cb2 < pos cb2
             then (Ready (Panic ''writer returned length larger than input slice''), cb2, r1, w2)
             else if pos cb2 = cap cb2 \<and> read_done cb2 then
               (case poll_flush w2 of
                  (Pending, w3) \<Rightarrow> (Pending, cb2, r1, w3)
                | (Ready (Err e), w3) \<Rightarrow> (Ready (Err e), cb2, r1, w3)
                | (Ready (Panic m), w3) \<Rightarrow> (Ready (Panic m), cb2, r1, w3)
                | (Ready (Ok _), w3) \<Rightarrow> (Ready (Ok (amt cb2)), cb2, r1, w3))
             else poll_copy cb2 r1 w2))"
  by pat_completeness auto
termination
  by (relation "measure (\<lambda>(cb, r, w). length (rd_script r) + length (wr_script w))")
    (auto dest!: poll_copy_decreases [OF sym sym])

declare poll_copy.simps [simp del]

section \<open>One direction\<close>

datatype transfer_state = Running copy_buf | Shuttingdow u64 | Done u64

fun transfer_display :: "transfer_state \<Rightarrow> string" where
  "transfer_display (Running _) = ''Running''"
| "transfer_display (Shuttingdow _) = ''Shuttingdow''"
| "transfer_display (Done _) = ''Done''"

fun transfer_rank :: "transfer_state \<Rightarrow> nat" where
  "transfer_rank (Running _) = 2"
| "transfer_rank (Shuttingdow _) = 1"
| "transfer_rank (Done _) = 0"

type_synonym dir_result = "u64 io_result poll \<times> transfer_state \<times> endpoint \<times> endpoint"

function transfer_one_direction :: "endpoint \<Rightarrow> endpoint \<Rightarrow> transfer_state \<Rightarrow> dir_result" where
  "transfer_one_direction r w st =
     (case st of
        Running cb \<Rightarrow>
          (case poll_copy cb r w of
             (Pending, cb', r', w') \<Rightarrow> (Pending, Running cb', r', w')
           | (Ready (Err e), cb', r', w') \<Rightarrow> (Ready (Err e), Running cb', r', w')
           | (Ready (Panic m), cb', r', w') \<Rightarrow> (Ready (Panic m), Running cb', r', w')
           | (Ready (Ok count), cb', r', w') \<Rightarrow> transfer_one_direction r' w' (Shuttingdow count))
      | Shuttingdow count \<Rightarrow>
          (case poll_shutdown w of
             (Pending, w') \<Rightarrow> (Pending, Shuttingdow count, r, w')
           | (Ready (Err e), w') \<Rightarrow> (Ready (Err e), Shuttingdow count, r, w')
           | (Ready (Panic m), w') \<Rightarrow> (Ready (Panic m), Shuttingdow count, r, w')
           | (Ready (Ok _), w') \<Rightarrow> transfer_one_direction r w' (Done count))
      | Done count \<Rightarrow> (Ready (Ok count), Done count, r, w))"
  by pat_completeness auto
termination
  by (relation "measure (\<lambda>(r, w, st). transfer_rank st)") auto

declare transfer_one_direction.simps [simp del]

text \<open>
  \<open>CopyOneDirection::copy\<close> also publishes the amount written so far when the copy is pending; the
  extra argument and result is the \<open>amt\<close> the structure refers to.
\<close>

function copy_one_direction ::
    "endpoint \<Rightarrow> endpoint \<Rightarrow> transfer_state \<Rightarrow> u64 \<Rightarrow> u64 \<times> dir_result" where
  "copy_one_direction r w st amt0 =
     (case st of
        Running cb \<Rightarrow>
          (case poll_copy cb r w of
             (Ready (Err e), cb', r', w') \<Rightarrow> (amt0, Ready (Err e), Running cb', r', w')
           | (Ready (Panic m), cb', r', w') \<Rightarrow> (amt0, Ready (Panic m), Running cb', r', w')
           | (Ready (Ok n), cb', r', w') \<Rightarrow> copy_one_direction r' w' (Shuttingdow n) amt0
           | (Pending, cb', r', w') \<Rightarrow> (amt cb', Pending, Running cb', r', w'))
      | Shuttingdow n \<Rightarrow>
          (case poll_shutdown w of
             (Pending, w') \<Rightarrow> (amt0, Pending, Shuttingdow n, r, w')
           | (Ready (Err e), w') \<Rightarrow> (amt0, Ready (Err e), Shuttingdow n, r, w')
           | (Ready (Panic m), w') \<Rightarrow> (amt0, Ready (Panic m), Shuttingdow n, r, w')
           | (Ready (Ok _), w') \<Rightarrow> copy_one_direction r w' (Done n) amt0)
      | Done n \<Rightarrow> (amt0, Ready (Ok n), Done n, r, w))"
  by pat_completeness auto
termination
  by (relation "measure (\<lambda>(r, w, st, a). transfer_rank st)") auto

declare copy_one_direction.simps [simp del]

section \<open>Both directions\<close>

text \<open>
  \<open>tokio::time::Sleep\<close>: the deadline is fixed when the timer is made; a poll is ready from the
  deadline on and otherwise leaves the waker with the timer driver. Before its first poll a timer
  wakes nobody (\<open>sl_armed\<close>).
\<close>

record sleep_timer =
  sl_deadline :: nat
  sl_armed :: bool

definition sleep_new :: "nat \<Rightarrow> nat \<Rightarrow> sleep_timer" where
  "sleep_new now dur = \<lparr>sl_deadline = now + dur, sl_armed = False\<rparr>"

definition poll_sleep :: "nat \<Rightarrow> sleep_timer \<Rightarrow> bool \<times> sleep_timer" where
  "poll_sleep now sl =
     (if sl_deadline sl \<le> now then (True, sl) else (False, sl\<lparr>sl_armed := True\<rparr>))"

record copy_bidir =
  cb_a :: endpoint
  cb_b :: endpoint
  a_to_b_amt :: u64
  b_to_a_amt :: u64
  a_to_b_state :: transfer_state
  b_to_a_state :: transfer_state
  cb_timeout :: nat
  cb_sleep :: "sleep_timer option"

definition idle_error :: io_error where
  "idle_error = IoError Other ''connection idle timeout''"

text \<open>
  The last step of \<open>CopyBidirectional::copy\<close>: \<open>idle\<close> says that neither amount changed in this poll.
\<close>

definition idle_check :: "nat \<Rightarrow> bool \<Rightarrow> copy_bidir \<Rightarrow> (u64 \<times> u64) io_result poll \<times> copy_bidir" where
  "idle_check now idle s =
     (if idle then
        (case cb_sleep s of
           Some sl \<Rightarrow>
             (case poll_sleep now sl of
                (False, sl') \<Rightarrow> (Pending, s\<lparr>cb_sleep := Some sl'\<rparr>)
              | (True, sl') \<Rightarrow> (Ready (Err idle_error), s\<lparr>cb_sleep := Some sl'\<rparr>))
         | None \<Rightarrow> (Pending, s\<lparr>cb_sleep := Some (sleep_new now (cb_timeout s))\<rparr>))
      else (Pending, s\<lparr>cb_sleep := None\<rparr>))"

definition copy_bidir_poll ::
    "nat \<Rightarrow> copy_bidir \<Rightarrow> (u64 \<times> u64) io_result poll \<times> copy_bidir" where
  "copy_bidir_poll now s =
     (case copy_one_direction (cb_a s) (cb_b s) (a_to_b_state s) (a_to_b_amt s) of
        (amt1, res1, st1, a1, b1) \<Rightarrow>
      (let s1 = s\<lparr>cb_a := a1, cb_b := b1, a_to_b_state := st1, a_to_b_amt := amt1\<rparr> in
       case res1 of
         Ready (Err e) \<Rightarrow> (Ready (Err e), s1)
       | Ready (Panic m) \<Rightarrow> (Ready (Panic m), s1)
       | _ \<Rightarrow>
         (case copy_one_direction (cb_b s1) (cb_a s1) (b_to_a_state s1) (b_to_a_amt s1) of
            (amt2, res2, st2, b2, a2) \<Rightarrow>
          (let s2 = s1\<lparr>cb_a := a2, cb_b := b2, b_to_a_state := st2, b_to_a_amt := amt2\<rparr> in
           case (res1, res2) of
             (_, Ready (Err e)) \<Rightarrow> (Ready (Err e), s2)
           | (_, Ready (Panic m)) \<Rightarrow> (Ready (Panic m), s2)
           | (Pending, Pending) \<Rightarrow>
               idle_check now (a_to_b_amt s = a_to_b_amt s2 \<and> b_to_a_amt s = b_to_a_amt s2) s2
           | (Ready (Ok n), Ready (Ok m)) \<Rightarrow> (Ready (Ok (n, m)), s2)
           | _ \<Rightarrow> (Pending, s2)))))"

text \<open>\<open>copy_bidirectional_with_timeout\<close>: the future is polled at the given times until it is ready.\<close>

definition copy_bidir_start :: "endpoint \<Rightarrow> endpoint \<Rightarrow> nat \<Rightarrow> nat \<Rightarrow> copy_bidir" where
  "copy_bidir_start a b sz timeout =
     \<lparr>cb_a = a, cb_b = b, a_to_b_amt = 0, b_to_a_amt = 0,
      a_to_b_state = Running (copy_buf_new sz), b_to_a_state = Running (copy_buf_new sz),
      cb_timeout = timeout, cb_sleep = None\<rparr>"

fun copy_bidir_polls ::
    "nat list \<Rightarrow> copy_bidir \<Rightarrow> (u64 \<times> u64) io_result poll \<times> copy_bidir" where
  "copy_bidir_polls [] s = (Pending, s)"
| "copy_bidir_polls (now # nows) s =
     (case copy_bidir_poll now s of
        (Pending, s') \<Rightarrow> copy_bidir_polls nows s'
      | (Ready res, s') \<Rightarrow> (Ready res, s'))"

definition copy_bidirectional_with_timeout ::
    "endpoint \<Rightarrow> endpoint \<Rightarrow> nat \<Rightarrow> nat \<Rightarrow> nat list \<Rightarrow> (u64 \<times> u64) io_result poll \<times> copy_bidir" where
  "copy_bidirectional_with_timeout a b sz timeout nows =
     copy_bidir_polls nows (copy_bidir_start a b sz timeout)"

text \<open>\<open>copy_bidirectional\<close>, without the timer; it uses \<open>transfer_one_direction\<close> and 1024-byte buffers.\<close>

definition plain_bidir_poll ::
    "endpoint \<times> endpoint \<times> transfer_state \<times> transfer_state
     \<Rightarrow> (u64 \<times> u64) io_result poll \<times> endpoint \<times> endpoint \<times> transfer_state \<times> transfer_state" where
  "plain_bidir_poll s =
     (case s of (a, b, sab, sba) \<Rightarrow>
      (case transfer_one_direction a b sab of
         (res1, sab', a1, b1) \<Rightarrow>
       (case res1 of
          Ready (Err e) \<Rightarrow> (Ready (Err e), a1, b1, sab', sba)
        | Ready (Panic m) \<Rightarrow> (Ready (Panic m), a1, b1, sab', sba)
        | _ \<Rightarrow>
          (case transfer_one_direction b1 a1 sba of
             (res2, sba', b2, a2) \<Rightarrow>
             (case (res1, res2) of
                (_, Ready (Err e)) \<Rightarrow> (Ready (Err e), a2, b2, sab', sba')
              | (_, Ready (Panic m)) \<Rightarrow> (Ready (Panic m), a2, b2, sab', sba')
              | (Ready (Ok n), Ready (Ok m)) \<Rightarrow> (Ready (Ok (n, m)), a2, b2, sab', sba')
              | _ \<Rightarrow> (Pending, a2, b2, sab', sba'))))))"

fun plain_bidir_polls ::
    "nat \<Rightarrow> endpoint \<times> endpoint \<times> transfer_state \<times> transfer_state
     \<Rightarrow> (u64 \<times> u64) io_result poll \<times> endpoint \<times> endpoint \<times> transfer_state \<times> transfer_state" where
  "plain_bidir_polls 0 s = (Pending, s)"
| "plain_bidir_polls (Suc k) s =
     (case plain_bidir_poll s of
        (Pending, s') \<Rightarrow> plain_bidir_polls k s'
      | (Ready res, s') \<Rightarrow> (Ready res, s'))"

definition copy_bidirectional ::
    "endpoint \<Rightarrow> endpoint \<Rightarrow> nat
     \<Rightarrow> (u64 \<times> u64) io_result poll \<times> endpoint \<times> endpoint \<times> transfer_state \<times> transfer_state" where
  "copy_bidirectional a b polls =
     plain_bidir_polls polls (a, b, Running (copy_buf_new 1024), Running (copy_buf_new 1024))"

section \<open>Conservation in one direction\<close>

text \<open>The outcome of \<open>poll_copy\<close> after a flush or a write that ended the poll.\<close>

fun poll_value :: "'a \<Rightarrow> unit io_result poll \<Rightarrow> 'a io_result poll" where
  "poll_value a Pending = Pending"
| "poll_value a (Ready (Ok _)) = Ready (Ok a)"
| "poll_value a (Ready (Err e)) = Ready (Err e)"
| "poll_value a (Ready (Panic m)) = Ready (Panic m)"

lemma poll_value_iff [simp]:
  "poll_value a q = Pending \<longleftrightarrow> q = Pending" "poll_value a q = Ready (Panic m) \<longleftrightarrow> q = Ready (Panic m)"
  "poll_value a q = Ready (Ok b) \<longleftrightarrow> q = Ready (Ok ()) \<and> a = b"
  by (cases "(a, q)" rule: poll_value.cases; auto)+

lemma poll_copy_rule [case_names early stop over flush loop]:
  assumes "\<And>cb r w res cb1 r1 w1. begin_phase cb r w = (Some res, cb1, r1, w1) \<Longrightarrow>
      P cb r w (res, cb1, r1, w1)"
    and "\<And>cb r w cb1 r1 w1 q cb2 w2. begin_phase cb r w = (None, cb1, r1, w1) \<Longrightarrow>
      write_phase cb1 w1 = (q, cb2, w2) \<Longrightarrow> q \<noteq> Ready (Ok ()) \<Longrightarrow>
      P cb r w (poll_value (amt cb2) q, cb2, r1, w2)"
    and "\<And>cb r w cb1 r1 w1 cb2 w2. begin_phase cb r w = (None, cb1, r1, w1) \<Longrightarrow>
      write_phase cb1 w1 = (Ready (Ok ()), cb2, w2) \<Longrightarrow> cap cb2 < pos cb2 \<Longrightarrow>
      P cb r w (Ready (Panic ''writer returned length larger than input slice''), cb2, r1, w2)"
    and "\<And>cb r w cb1 r1 w1 cb2 w2 q w3. begin_phase cb r w = (None, cb1, r1, w1) \<Longrightarrow>
      write_phase cb1 w1 = (Ready (Ok ()), cb2, w2) \<Longrightarrow> pos cb2 = cap cb2 \<Longrightarrow> read_done cb2 \<Longrightarrow>
      poll_flush w2 = (q, w3) \<Longrightarrow> P cb r w (poll_value (amt cb2) q, cb2, r1, w3)"
    and "\<And>cb r w cb1 r1 w1 cb2 w2 p. begin_phase cb r w = (None, cb1, r1, w1) \<Longrightarrow>
      write_phase cb1 w1 = (Ready (Ok ()), cb2, w2) \<Longrightarrow> \<not> cap cb2 < pos cb2 \<Longrightarrow>
      \<not> (pos cb2 = cap cb2 \<and> read_done cb2) \<Longrightarrow> P cb2 r1 w2 p \<Longrightarrow> P cb r w p"
  shows "P cb r w (poll_copy cb r w)"
proof (induction cb r w rule: poll_copy.induct)
  case (1 cb r w)
  obtain o1 cb1 r1 w1 where bp: "begin_phase cb r w = (o1, cb1, r1, w1)" by (metis prod_cases4)
  show ?case
  proof (cases o1)
    case (Some res)
    with bp assms(1) show ?thesis by (subst poll_copy.simps) simp
  next
    case None
    obtain q cb2 w2 where wp: "write_phase cb1 w1 = (q, cb2, w2)" by (metis prod_cases3)
    show ?thesis
    proof (cases "q = Ready (Ok ())")
      case False
      with bp None wp have "poll_copy cb r w = (poll_value (amt cb2) q, cb2, r1, w2)"
        by (subst poll_copy.simps) (auto split: poll.split result.split)
      with assms(2) [OF bp [unfolded None] wp False] show ?thesis by simp
    next
      case True
      note steps = bp [unfolded None] wp [unfolded True]
      consider (over) "cap cb2 < pos cb2" | (flush) "pos cb2 = cap cb2" "read_done cb2"
        | (loop) "\<not> cap cb2 < pos cb2" "\<not> (pos cb2 = cap cb2 \<and> read_done cb2)" by linarith
      then show ?thesis
      proof cases
        case over
        with assms(3) [OF steps over] steps show ?thesis by (subst poll_copy.simps) simp
      next
        case flush
        obtain f w3 where fl: "poll_flush w2 = (f, w3)" by fastforce
        with flush steps have "poll_copy cb r w = (poll_value (amt cb2) f, cb2, r1, w3)"
          by (subst poll_copy.simps) (auto split: poll.split result.split)
        with assms(4) [OF steps flush fl] show ?thesis by simp
      next
        case loop
        with 1 steps have "P cb2 r1 w2 (poll_copy cb2 r1 w2)" by auto
        with assms(5) [OF steps loop] loop steps show ?thesis by (subst poll_copy.simps) auto
      qed
    qed
  qed
qed

definition cb_inv :: "copy_buf \<Rightarrow> bool" where
  "cb_inv cb \<longleftrightarrow> pos cb \<le> cap cb \<and> cap cb \<le> length (buf cb) \<and> 0 < length (buf cb)"

text \<open>
  Conservation: the bytes read are the bytes written followed by the unsent slice, the amount counts
  the bytes written, and the end flag is set only at the end of the input.
\<close>

definition moved :: "copy_buf \<Rightarrow> endpoint \<Rightarrow> endpoint \<Rightarrow> bool" where
  "moved cb r w \<longleftrightarrow> delivered r = accepted w @ unsent cb
     \<and> amt cb = of_nat (length (accepted w)) \<and> (read_done cb \<longrightarrow> eof r)"

lemma length_unsent: "cb_inv cb \<Longrightarrow> length (unsent cb) = cap cb - pos cb"
  by (auto simp: unsent_def cb_inv_def)

lemma unsent_empty: "cb_inv cb \<Longrightarrow> pos cb = cap cb \<Longrightarrow> unsent cb = []"
  by (simp add: unsent_def)

lemma unsent_advance:
  "n \<le> length (unsent cb) \<Longrightarrow>
   unsent cb = take n (unsent cb) @ unsent (cb\<lparr>pos := pos cb + n, amt := a, need_flush := f\<rparr>)"
proof -
  have "drop n (unsent cb) = unsent (cb\<lparr>pos := pos cb + n, amt := a, need_flush := f\<rparr>)"
    by (simp add: unsent_def drop_take add.commute)
  then show ?thesis by (metis append_take_drop_id)
qed

lemma write_phase_frame:
  "case write_phase cb w of (q, cb', w') \<Rightarrow>
     rd_script w' = rd_script w \<and> delivered w' = delivered w \<and> eof w' = eof w \<and> closed w' = closed w
   \<and> (q = Pending \<longrightarrow> armed w') \<and> (armed w \<longrightarrow> armed w')"
  by (rule write_phase_rule [where P = "\<lambda>cb w p. case p of (q, cb', w') \<Rightarrow>
     rd_script w' = rd_script w \<and> delivered w' = delivered w \<and> eof w' = eof w \<and> closed w' = closed w
   \<and> (q = Pending \<longrightarrow> armed w') \<and> (armed w \<longrightarrow> armed w')"])
    (auto dest: poll_writeD(3-6,8,9))

lemma write_phase_inv:
  "endpoint_ok w \<longrightarrow> cb_inv cb \<longrightarrow> (case write_phase cb w of (q, cb', w') \<Rightarrow>
     endpoint_ok w' \<and> cb_inv cb' \<and> read_done cb' = read_done cb \<and> cap cb' = cap cb
   \<and> (\<exists>sent. unsent cb = sent @ unsent cb' \<and> accepted w' = accepted w @ sent
        \<and> amt cb' = amt cb + of_nat (length sent))
   \<and> (\<forall>m. q \<noteq> Ready (Panic m)) \<and> (q = Ready (Ok ()) \<longrightarrow> pos cb' = cap cb'))"
    (is "?P cb w (write_phase cb w)")
proof (rule write_phase_rule [where P = ?P], goal_cases)
  case (6 cb w w' n p)
  let ?cb = "cb\<lparr>pos := pos cb + n, amt := amt cb + of_nat n, need_flush := True\<rparr>"
  show ?case
  proof (intro impI)
    assume ok: "endpoint_ok w" and inv: "cb_inv cb"
    from 6(2) ok have n: "n \<le> length (unsent cb)" by (rule poll_writeD(12)) simp
    have "cb_inv ?cb" using inv n length_unsent [OF inv] by (auto simp: cb_inv_def)
    moreover have "endpoint_ok w'" using 6(2) ok by (rule poll_writeD(10))
    moreover have "accepted w' = accepted w @ take n (unsent cb)" using poll_writeD(7) [OF 6(2)] by simp
    ultimately show "case p of (q, cb', w') \<Rightarrow>
        endpoint_ok w' \<and> cb_inv cb' \<and> read_done cb' = read_done cb \<and> cap cb' = cap cb
      \<and> (\<exists>sent. unsent cb = sent @ unsent cb' \<and> accepted w' = accepted w @ sent
           \<and> amt cb' = amt cb + of_nat (length sent))
      \<and> (\<forall>m. q \<noteq> Ready (Panic m)) \<and> (q = Ready (Ok ()) \<longrightarrow> pos cb' = cap cb')"
      using 6(4) unsent_advance [OF n, where a = "amt cb + of_nat n" and f = True] n
      by (cases p) (force simp: min_absorb2)
  qed
qed (auto simp: cb_inv_def dest: poll_writeD(7,10,11))

lemma begin_phase_basic:
  assumes "begin_phase cb r w = (p, cb1, r1, w1)"
  shows "accepted r1 = accepted r" "closed r1 = closed r" "delivered w1 = delivered w"
    "eof w1 = eof w" "closed w1 = closed w" "accepted w1 = accepted w"
    "p = Some Pending \<Longrightarrow> armed r1 \<or> armed w1" "armed r \<or> armed w \<Longrightarrow> armed r1 \<or> armed w1"
  using assms
  by (auto simp: begin_phase_def read_phase_def dest: poll_readD(4,5,8,9) poll_flushD(3-8)
      split: if_splits prod.splits poll.splits result.splits)

lemma begin_phase_inv:
  assumes "begin_phase cb r w = (p, cb1, r1, w1)"
    and "endpoint_ok r" "endpoint_ok w" "cb_inv cb" "moved cb r w"
  shows "endpoint_ok r1 \<and> endpoint_ok w1 \<and> cb_inv cb1 \<and> moved cb1 r1 w1
    \<and> (\<forall>m. p \<noteq> Some (Ready (Panic m))) \<and> (\<forall>n. p \<noteq> Some (Ready (Ok n)))"
proof (cases "pos cb = cap cb \<and> \<not> read_done cb")
  case False
  with assms show ?thesis by (auto simp: begin_phase_def)
next
  case True
  then have rp: "read_phase cb r w = (p, cb1, r1, w1)" using assms(1) by (simp add: begin_phase_def)
  obtain q r' where pr: "poll_read (length (buf cb)) r = (q, r')" by fastforce
  note rd = poll_readD [OF pr]
  have empty: "unsent cb = []" using True assms(4) by (simp add: unsent_empty)
  have ok: "endpoint_ok r'" "\<And>m. q \<noteq> Ready (Panic m)" using rd(10,11) assms(2) by auto
  show ?thesis
  proof (cases "\<exists>bs. q = Ready (Ok bs)")
    case True
    then obtain bs where q: "q = Ready (Ok bs)" by blast
    have len: "length bs \<le> length (buf cb)" using rd(12) assms(2) q by simp
    have "delivered r' = delivered r @ bs" "eof r' = (eof r \<or> bs = [])"
      using rd(6,7) q assms(4) by (auto simp: cb_inv_def)
    then show ?thesis
      using rp pr q ok assms(3-5) len empty
      by (auto simp: read_phase_def moved_def unsent_def cb_inv_def split: if_splits)
  next
    case False
    then have "delivered r' = delivered r" "eof r' = eof r"
      using rd(6,7) by (auto split: poll.splits result.splits)
    moreover have "moved (cb\<lparr>need_flush := f\<rparr>) r' w' = moved cb r w"
      if "accepted w' = accepted w" for f w'
      using that calculation by (simp add: moved_def unsent_def)
    ultimately show ?thesis
      using rp pr ok False assms(3-5)
      by (auto simp: read_phase_def cb_inv_def moved_def unsent_def
          dest: poll_flushD(4,9,10) split: prod.splits poll.splits result.splits if_splits)
  qed
qed

lemma poll_copy_frame:
  "case poll_copy cb r w of (q, cb', r', w') \<Rightarrow>
     accepted r' = accepted r \<and> closed r' = closed r \<and> delivered w' = delivered w \<and> eof w' = eof w
   \<and> closed w' = closed w \<and> (q = Pending \<longrightarrow> armed r' \<or> armed w')
   \<and> (armed r \<or> armed w \<longrightarrow> armed r' \<or> armed w')"
    (is "?P cb r w (poll_copy cb r w)")
proof (rule poll_copy_rule [where P = ?P], goal_cases)
  case (1 cb r w res cb1 r1 w1)
  from begin_phase_basic [OF 1] show ?case by auto
next
  case (2 cb r w cb1 r1 w1 q cb2 w2)
  from begin_phase_basic [OF 2(1)] write_phase_frame [of w1 cb1] 2(2) show ?case by auto
next
  case (3 cb r w cb1 r1 w1 cb2 w2)
  from begin_phase_basic [OF 3(1)] write_phase_frame [of w1 cb1] 3(2) show ?case by auto
next
  case (4 cb r w cb1 r1 w1 cb2 w2 q w3)
  from begin_phase_basic [OF 4(1)] write_phase_frame [of w1 cb1] 4(2) poll_flushD [OF 4(5)]
  show ?case by auto
next
  case (5 cb r w cb1 r1 w1 cb2 w2 p)
  from begin_phase_basic [OF 5(1)] write_phase_frame [of w1 cb1] 5(2,5) show ?case
    by (cases p) auto
qed

lemma write_phase_moved:
  assumes "endpoint_ok w" "cb_inv cb" "moved cb r w" "write_phase cb w = (q, cb', w')"
  shows "endpoint_ok w' \<and> cb_inv cb' \<and> moved cb' r w' \<and> read_done cb' = read_done cb
    \<and> (\<forall>m. q \<noteq> Ready (Panic m)) \<and> (q = Ready (Ok ()) \<longrightarrow> pos cb' = cap cb')"
  using write_phase_inv [of w cb] assms by (auto simp: moved_def)

lemma poll_copy_inv:
  "endpoint_ok r \<longrightarrow> endpoint_ok w \<longrightarrow> cb_inv cb \<longrightarrow> moved cb r w \<longrightarrow>
   (case poll_copy cb r w of (q, cb', r', w') \<Rightarrow>
     endpoint_ok r' \<and> endpoint_ok w' \<and> cb_inv cb' \<and> moved cb' r' w' \<and> (\<forall>m. q \<noteq> Ready (Panic m))
   \<and> (\<forall>n. q = Ready (Ok n) \<longrightarrow> n = of_nat (length (accepted w')) \<and> delivered r' = accepted w' \<and> eof r'))"
    (is "?P cb r w (poll_copy cb r w)")
proof (rule poll_copy_rule [where P = ?P], goal_cases)
  case (1 cb r w res cb1 r1 w1)
  then show ?case using begin_phase_inv [OF 1] by auto
next
  case (2 cb r w cb1 r1 w1 q cb2 w2)
  then show ?case using begin_phase_inv [OF 2(1)] write_phase_moved [OF _ _ _ 2(2)] by auto
next
  case (3 cb r w cb1 r1 w1 cb2 w2)
  then show ?case using begin_phase_inv [OF 3(1)] write_phase_moved [OF _ _ _ 3(2)] by force
next
  case (4 cb r w cb1 r1 w1 cb2 w2 q w3)
  show ?case
  proof (intro impI)
    assume pre: "endpoint_ok r" "endpoint_ok w" "cb_inv cb" "moved cb r w"
    have "endpoint_ok r1" "endpoint_ok w2" "cb_inv cb2" "moved cb2 r1 w2"
      using begin_phase_inv [OF 4(1) pre] write_phase_moved [OF _ _ _ 4(2)] by auto
    then show "case (poll_value (amt cb2) q, cb2, r1, w3) of (q, cb', r', w') \<Rightarrow>
        endpoint_ok r' \<and> endpoint_ok w' \<and> cb_inv cb' \<and> moved cb' r' w' \<and> (\<forall>m. q \<noteq> Ready (Panic m))
      \<and> (\<forall>n. q = Ready (Ok n) \<longrightarrow> n = of_nat (length (accepted w')) \<and> delivered r' = accepted w' \<and> eof r')"
      using poll_flushD [OF 4(5)] 4(3,4) by (auto simp: moved_def unsent_empty)
  qed
next
  case (5 cb r w cb1 r1 w1 cb2 w2 p)
  then show ?case
    using begin_phase_inv [OF 5(1)] write_phase_moved [OF _ _ _ 5(2)] by auto
qed

text \<open>The invariant of a direction, by its state.\<close>

fun dir_inv :: "transfer_state \<Rightarrow> endpoint \<Rightarrow> endpoint \<Rightarrow> bool" where
  "dir_inv (Running cb) r w \<longleftrightarrow> cb_inv cb \<and> moved cb r w"
| "dir_inv (Shuttingdow n) r w \<longleftrightarrow>
     n = of_nat (length (accepted w)) \<and> delivered r = accepted w \<and> eof r"
| "dir_inv (Done n) r w \<longleftrightarrow>
     n = of_nat (length (accepted w)) \<and> delivered r = accepted w \<and> eof r \<and> closed w"

lemma dir_inv_prefix: "dir_inv st r w \<Longrightarrow> \<exists>rest. delivered r = accepted w @ rest"
  by (cases st) (auto simp: moved_def)

lemma dir_inv_start: "0 < sz \<Longrightarrow> fresh r \<Longrightarrow> fresh w \<Longrightarrow> dir_inv (Running (copy_buf_new sz)) r w"
  by (simp add: copy_buf_new_def cb_inv_def moved_def unsent_def fresh_def)

lemma dir_inv_cong:
  "delivered r' = delivered r \<Longrightarrow> eof r' = eof r \<Longrightarrow> accepted w' = accepted w \<Longrightarrow> closed w' = closed w \<Longrightarrow>
   dir_inv st r' w' = dir_inv st r w"
  by (cases st) (auto simp: moved_def)

section \<open>The contract of a one-direction copier\<close>

text \<open>
  What both bidirectional loops need of the function that moves one direction: it keeps the
  contracts of the streams and the invariant of the direction, ends only in \<open>Done\<close>, leaves alone
  what the other direction records, and leaves a waker behind when it is pending.
\<close>

locale direction_copier =
  fixes xfer :: "endpoint \<Rightarrow> endpoint \<Rightarrow> transfer_state \<Rightarrow> dir_result"
  assumes xfer_inv: "xfer r w st = (q, st', r', w') \<Longrightarrow> endpoint_ok r \<Longrightarrow> endpoint_ok w \<Longrightarrow>
      dir_inv st r w \<Longrightarrow>
      endpoint_ok r' \<and> endpoint_ok w' \<and> dir_inv st' r' w' \<and> (\<forall>m. q \<noteq> Ready (Panic m))"
    and xfer_done: "xfer r w st = (Ready (Ok n), st', r', w') \<Longrightarrow> st' = Done n"
    and xfer_frame: "xfer r w st = (q, st', r', w') \<Longrightarrow>
      accepted r' = accepted r \<and> closed r' = closed r \<and> delivered w' = delivered w \<and> eof w' = eof w"
    and xfer_wake: "xfer r w st = (q, st', r', w') \<Longrightarrow> q = Pending \<or> armed r \<or> armed w \<Longrightarrow>
      armed r' \<or> armed w'"
begin

lemma first_direction:
  assumes "xfer a b sab = (q, sab', a1, b1)" "endpoint_ok a" "endpoint_ok b"
    and "dir_inv sab a b" "dir_inv sba b a"
  shows "endpoint_ok a1 \<and> endpoint_ok b1 \<and> dir_inv sab' a1 b1 \<and> dir_inv sba b1 a1
    \<and> (\<forall>m. q \<noteq> Ready (Panic m))"
proof -
  have "dir_inv sba b1 a1 = dir_inv sba b a"
    using xfer_frame [OF assms(1)] by (intro dir_inv_cong) auto
  with xfer_inv [OF assms(1-4)] assms(5) show ?thesis by simp
qed

lemma both_directions:
  assumes "xfer a b sab = (q1, sab', a1, b1)" "xfer b1 a1 sba = (q2, sba', b2, a2)"
    and "endpoint_ok a" "endpoint_ok b" "dir_inv sab a b" "dir_inv sba b a"
  shows "endpoint_ok a2 \<and> endpoint_ok b2 \<and> dir_inv sab' a2 b2 \<and> dir_inv sba' b2 a2
    \<and> (\<forall>m. q1 \<noteq> Ready (Panic m)) \<and> (\<forall>m. q2 \<noteq> Ready (Panic m))
    \<and> (\<forall>n m. q1 = Ready (Ok n) \<and> q2 = Ready (Ok m) \<longrightarrow>
        sab' = Done n \<and> sba' = Done m)"
proof -
  note 1 = first_direction [OF assms(1,3-6)]
  then show ?thesis
    using first_direction [OF assms(2), of sab'] xfer_done assms(1,2) by blast
qed

end

lemma transfer_running:
  "transfer_one_direction r w (Running cb) =
     (case poll_copy cb r w of
        (Ready (Ok count), cb', r', w') \<Rightarrow> transfer_one_direction r' w' (Shuttingdow count)
      | (Pending, cb', r', w') \<Rightarrow> (Pending, Running cb', r', w')
      | (Ready (Err e), cb', r', w') \<Rightarrow> (Ready (Err e), Running cb', r', w')
      | (Ready (Panic m), cb', r', w') \<Rightarrow> (Ready (Panic m), Running cb', r', w'))"
  by (subst transfer_one_direction.simps) (auto split: prod.split poll.split result.split)

lemma transfer_shutting:
  "transfer_one_direction r w (Shuttingdow n) =
     (case poll_shutdown w of
        (Ready (Ok _), w') \<Rightarrow> (Ready (Ok n), Done n, r, w')
      | (Pending, w') \<Rightarrow> (Pending, Shuttingdow n, r, w')
      | (Ready (Err e), w') \<Rightarrow> (Ready (Err e), Shuttingdow n, r, w')
      | (Ready (Panic m), w') \<Rightarrow> (Ready (Panic m), Shuttingdow n, r, w'))"
  by (subst transfer_one_direction.simps, subst (2) transfer_one_direction.simps)
    (auto split: prod.split poll.split result.split)

lemma transfer_done: "transfer_one_direction r w (Done n) = (Ready (Ok n), Done n, r, w)"
  by (subst transfer_one_direction.simps) simp

lemma transfer_shutting_inv:
  assumes "transfer_one_direction r w (Shuttingdow n) = (q, st', r', w')"
  shows "r' = r" "accepted w' = accepted w" "delivered w' = delivered w" "eof w' = eof w"
    "endpoint_ok w \<Longrightarrow> endpoint_ok w'" "\<And>m. endpoint_ok w \<Longrightarrow> q \<noteq> Ready (Panic m)"
    "q = Pending \<or> armed w \<Longrightarrow> armed w'"
    "st' = Shuttingdow n \<and> (\<forall>k. q \<noteq> Ready (Ok k)) \<or> st' = Done n \<and> q = Ready (Ok n) \<and> closed w'"
  using assms
  by (auto simp: transfer_shutting dest: poll_shutdownD split: prod.splits poll.splits result.splits)

lemma transfer_runningE:
  assumes "transfer_one_direction r w (Running cb) = (q, st', r', w')"
  obtains (shut) n cb1 r1 w1 where "poll_copy cb r w = (Ready (Ok n), cb1, r1, w1)"
      "transfer_one_direction r1 w1 (Shuttingdow n) = (q, st', r', w')"
  | (stay) cb1 where "poll_copy cb r w = (q, cb1, r', w')" "st' = Running cb1" "\<And>n. q \<noteq> Ready (Ok n)"
proof -
  obtain p cb1 r1 w1 where pc: "poll_copy cb r w = (p, cb1, r1, w1)" by (metis prod_cases4)
  show ?thesis
  proof (cases "\<exists>n. p = Ready (Ok n)")
    case True
    with pc assms shut show ?thesis by (auto simp: transfer_running)
  next
    case False
    with pc assms have "q = p \<and> st' = Running cb1 \<and> r' = r1 \<and> w' = w1"
      by (auto simp: transfer_running split: poll.splits result.splits)
    with pc False stay show ?thesis by blast
  qed
qed

lemma transfer_frame:
  assumes "transfer_one_direction r w st = (q, st', r', w')"
  shows "accepted r' = accepted r \<and> closed r' = closed r \<and> delivered w' = delivered w \<and> eof w' = eof w
    \<and> (q = Pending \<or> armed r \<or> armed w \<longrightarrow> armed r' \<or> armed w')"
proof (cases st)
  case (Running cb)
  note frame = poll_copy_frame [of r w cb]
  from assms [unfolded Running] show ?thesis
  proof (cases rule: transfer_runningE)
    case (shut n cb1 r1 w1)
    from frame shut(1) transfer_shutting_inv [OF shut(2)] show ?thesis by auto
  next
    case (stay cb1)
    with frame show ?thesis by simp
  qed
next
  case (Shuttingdow n)
  from transfer_shutting_inv [OF assms [unfolded Shuttingdow]] show ?thesis by auto
next
  case (Done n)
  with assms show ?thesis by (auto simp: transfer_done)
qed

lemma transfer_inv:
  assumes "transfer_one_direction r w st = (q, st', r', w')"
    and "endpoint_ok r" "endpoint_ok w" "dir_inv st r w"
  shows "endpoint_ok r' \<and> endpoint_ok w' \<and> dir_inv st' r' w' \<and> (\<forall>m. q \<noteq> Ready (Panic m))"
proof (cases st)
  case (Running cb)
  note inv = poll_copy_inv [of r w cb]
  from assms(1) [unfolded Running] show ?thesis
  proof (cases rule: transfer_runningE)
    case (shut n cb1 r1 w1)
    with inv assms(2-4) Running
    have "endpoint_ok r1" "endpoint_ok w1" "dir_inv (Shuttingdow n) r1 w1" by auto
    with transfer_shutting_inv [OF shut(2)] show ?thesis by auto
  next
    case (stay cb1)
    with inv assms(2-4) Running show ?thesis by auto
  qed
next
  case (Shuttingdow n)
  from transfer_shutting_inv [OF assms(1) [unfolded Shuttingdow]] assms(2-4) Shuttingdow
  show ?thesis by auto
next
  case (Done n)
  with assms show ?thesis by (auto simp: transfer_done)
qed

lemma transfer_ends_done:
  assumes "transfer_one_direction r w st = (Ready (Ok n), st', r', w')"
  shows "st' = Done n"
proof (cases st)
  case (Running cb)
  from assms [unfolded Running] show ?thesis
    by (cases rule: transfer_runningE) (auto dest: transfer_shutting_inv(8))
next
  case (Shuttingdow m)
  from transfer_shutting_inv(8) [OF assms [unfolded Shuttingdow]] show ?thesis by auto
next
  case (Done m)
  with assms show ?thesis by (auto simp: transfer_done)
qed

lemma transfer_copier: "direction_copier transfer_one_direction"
  by unfold_locales (blast dest: transfer_inv transfer_frame transfer_ends_done)+

interpretation transfer: direction_copier transfer_one_direction
  by (rule transfer_copier)

lemma copy_one_is_transfer:
  "copy_one_direction r w st amt0 =
     ((case transfer_one_direction r w st of
         (Pending, Running cb', _, _) \<Rightarrow> amt cb' | _ \<Rightarrow> amt0),
      transfer_one_direction r w st)"
proof (induction r w st amt0 rule: copy_one_direction.induct)
  case (1 r w st amt0)
  show ?case
  proof (cases st)
    case (Running cb)
    obtain p cb1 r1 w1 where pc: "poll_copy cb r w = (p, cb1, r1, w1)" by (metis prod_cases4)
    show ?thesis
    proof (cases "\<exists>n. p = Ready (Ok n)")
      case True
      then obtain n where n: "p = Ready (Ok n)" by blast
      then show ?thesis
        using 1 Running pc by (subst copy_one_direction.simps) (simp add: transfer_running)
    next
      case False
      with Running pc show ?thesis
        by (subst copy_one_direction.simps) (auto simp: transfer_running split: poll.split result.split)
    qed
  next
    case (Shuttingdow n)
    then show ?thesis
      by (subst copy_one_direction.simps, subst (2) copy_one_direction.simps)
        (auto simp: transfer_shutting split: prod.split poll.split result.split)
  next
    case (Done n)
    then show ?thesis by (subst copy_one_direction.simps) (simp add: transfer_done)
  qed
qed

interpretation copy_one: direction_copier "\<lambda>r w st. snd (copy_one_direction r w st amt0)" for amt0
proof -
  have "(\<lambda>r w st. snd (copy_one_direction r w st amt0)) = transfer_one_direction"
    by (simp add: fun_eq_iff copy_one_is_transfer)
  then show "direction_copier (\<lambda>r w st. snd (copy_one_direction r w st amt0))"
    using transfer_copier by simp
qed

section \<open>Both directions together\<close>

definition bidir_inv :: "endpoint \<Rightarrow> endpoint \<Rightarrow> transfer_state \<Rightarrow> transfer_state \<Rightarrow> bool" where
  "bidir_inv a b sab sba \<longleftrightarrow> endpoint_ok a \<and> endpoint_ok b \<and> dir_inv sab a b \<and> dir_inv sba b a"

text \<open>What a finished bidirectional copy has done.\<close>

definition all_copied :: "endpoint \<Rightarrow> endpoint \<Rightarrow> u64 \<Rightarrow> u64 \<Rightarrow> bool" where
  "all_copied a b n m \<longleftrightarrow>
     accepted b = delivered a \<and> accepted a = delivered b
   \<and> n = of_nat (length (delivered a)) \<and> m = of_nat (length (delivered b))
   \<and> eof a \<and> eof b \<and> closed a \<and> closed b"

lemma all_copied_done: "dir_inv (Done n) a b \<Longrightarrow> dir_inv (Done m) b a \<Longrightarrow> all_copied a b n m"
  by (simp add: all_copied_def)

definition copy_bidir_inv :: "copy_bidir \<Rightarrow> bool" where
  "copy_bidir_inv s \<longleftrightarrow> bidir_inv (cb_a s) (cb_b s) (a_to_b_state s) (b_to_a_state s)"

lemma idle_check_fields:
  assumes "idle_check now idle s = (q, s')"
  shows "cb_a s' = cb_a s" "cb_b s' = cb_b s" "a_to_b_state s' = a_to_b_state s"
    "b_to_a_state s' = b_to_a_state s" "a_to_b_amt s' = a_to_b_amt s" "b_to_a_amt s' = b_to_a_amt s"
    "cb_timeout s' = cb_timeout s" "q = Pending \<or> q = Ready (Err idle_error)"
  using assms by (auto simp: idle_check_def split: if_splits option.splits prod.splits bool.splits)

lemma idle_check_inv:
  "idle_check now idle s = (q, s') \<Longrightarrow> copy_bidir_inv s' = copy_bidir_inv s"
  using idle_check_fields [of now idle s q s'] by (simp add: copy_bidir_inv_def)

lemma copy_bidir_pollE:
  assumes "copy_bidir_poll now s = (q, s')"
  obtains (first) q1 sab a1 b1 amt1 where
      "copy_one_direction (cb_a s) (cb_b s) (a_to_b_state s) (a_to_b_amt s) = (amt1, q1, sab, a1, b1)"
      "s' = s\<lparr>cb_a := a1, cb_b := b1, a_to_b_state := sab, a_to_b_amt := amt1\<rparr>"
      "(\<exists>e. q1 = Ready (Err e) \<and> q = Ready (Err e)) \<or> (\<exists>m. q1 = Ready (Panic m) \<and> q = Ready (Panic m))"
  | (both) q1 sab a1 b1 q2 sba a2 b2 amt1 amt2 s2 where
      "copy_one_direction (cb_a s) (cb_b s) (a_to_b_state s) (a_to_b_amt s) = (amt1, q1, sab, a1, b1)"
      "copy_one_direction b1 a1 (b_to_a_state s) (b_to_a_amt s) = (amt2, q2, sba, b2, a2)"
      "s2 = s\<lparr>a_to_b_state := sab, a_to_b_amt := amt1, cb_a := a2, cb_b := b2,
              b_to_a_state := sba, b_to_a_amt := amt2\<rparr>"
      "(\<exists>e. q2 = Ready (Err e) \<and> q = Ready (Err e) \<and> s' = s2)
       \<or> (\<exists>m. q2 = Ready (Panic m) \<and> q = Ready (Panic m) \<and> s' = s2)
       \<or> (\<exists>n m. q1 = Ready (Ok n) \<and> q2 = Ready (Ok m) \<and> q = Ready (Ok (n, m)) \<and> s' = s2)
       \<or> (q1 = Pending \<and> q2 = Pending \<and>
           idle_check now (a_to_b_amt s = amt1 \<and> b_to_a_amt s = amt2) s2 = (q, s'))
       \<or> (q = Pending \<and> s' = s2 \<and> ((\<exists>n. q1 = Ready (Ok n)) \<and> q2 = Pending
           \<or> q1 = Pending \<and> (\<exists>m. q2 = Ready (Ok m))))"
proof -
  obtain amt1 q1 sab a1 b1 where 1:
    "copy_one_direction (cb_a s) (cb_b s) (a_to_b_state s) (a_to_b_amt s) = (amt1, q1, sab, a1, b1)"
    by (metis prod_cases5)
  obtain amt2 q2 sba b2 a2 where 2:
    "copy_one_direction b1 a1 (b_to_a_state s) (b_to_a_amt s) = (amt2, q2, sba, b2, a2)"
    by (metis prod_cases5)
  show ?thesis
  proof (cases "(\<exists>e. q1 = Ready (Err e)) \<or> (\<exists>m. q1 = Ready (Panic m))")
    case True
    with assms 1 first show ?thesis by (auto simp: copy_bidir_poll_def Let_def)
  next
    case False
    then have "q1 = Pending \<or> (\<exists>n. q1 = Ready (Ok n))" by (metis poll.exhaust result.exhaust)
    with assms 1 2 show ?thesis
      by (intro both [OF 1 2 refl])
        (auto simp: copy_bidir_poll_def Let_def split: poll.splits result.splits)
  qed
qed

lemma copy_bidir_poll_inv:
  assumes "copy_bidir_poll now s = (q, s')" "copy_bidir_inv s"
  shows "copy_bidir_inv s' \<and> (\<forall>m. q \<noteq> Ready (Panic m))
    \<and> (\<forall>n m. q = Ready (Ok (n, m)) \<longrightarrow> all_copied (cb_a s') (cb_b s') n m)"
proof -
  have pre: "endpoint_ok (cb_a s)" "endpoint_ok (cb_b s)"
    "dir_inv (a_to_b_state s) (cb_a s) (cb_b s)" "dir_inv (b_to_a_state s) (cb_b s) (cb_a s)"
    using assms(2) by (simp_all add: copy_bidir_inv_def bidir_inv_def)
  from assms(1) show ?thesis
  proof (cases rule: copy_bidir_pollE)
    case (first q1 sab a1 b1 amt1)
    then have "transfer_one_direction (cb_a s) (cb_b s) (a_to_b_state s) = (q1, sab, a1, b1)"
      by (simp add: copy_one_is_transfer)
    from transfer.first_direction [OF this pre] first show ?thesis
      by (auto simp: copy_bidir_inv_def bidir_inv_def)
  next
    case (both q1 sab a1 b1 q2 sba a2 b2 amt1 amt2 s2)
    then have t: "transfer_one_direction (cb_a s) (cb_b s) (a_to_b_state s) = (q1, sab, a1, b1)"
      "transfer_one_direction b1 a1 (b_to_a_state s) = (q2, sba, b2, a2)"
      by (simp_all add: copy_one_is_transfer)
    note bd = transfer.both_directions [OF t pre]
    have inv2: "copy_bidir_inv s2" using bd both(3) by (simp add: copy_bidir_inv_def bidir_inv_def)
    have fin: "all_copied (cb_a s2) (cb_b s2) n m" if "q1 = Ready (Ok n)" "q2 = Ready (Ok m)" for n m
      using bd that all_copied_done both(3) by auto
    from both(4) bd inv2 fin show ?thesis
      by (elim disjE) (auto dest: idle_check_inv idle_check_fields(8))
  qed
qed

lemma copy_bidir_polls_inv:
  "copy_bidir_polls nows s = (q, s') \<Longrightarrow> copy_bidir_inv s \<Longrightarrow>
   copy_bidir_inv s' \<and> (\<forall>m. q \<noteq> Ready (Panic m))
   \<and> (\<forall>n m. q = Ready (Ok (n, m)) \<longrightarrow> all_copied (cb_a s') (cb_b s') n m)"
proof (induction nows arbitrary: s)
  case (Cons now nows)
  obtain p s1 where p: "copy_bidir_poll now s = (p, s1)" by fastforce
  from copy_bidir_poll_inv [OF p Cons.prems(2)] Cons.IH [of s1] Cons.prems(1) p
  show ?case by (cases p) auto
qed simp

lemma copy_bidir_start_inv:
  "endpoint_ok a \<Longrightarrow> endpoint_ok b \<Longrightarrow> fresh a \<Longrightarrow> fresh b \<Longrightarrow> 0 < sz \<Longrightarrow>
   copy_bidir_inv (copy_bidir_start a b sz timeout)"
  using dir_inv_start [of sz a b] dir_inv_start [of sz b a]
  by (simp only: copy_bidir_inv_def bidir_inv_def copy_bidir_start_def copy_bidir.simps)

lemma plain_bidir_pollE:
  assumes "plain_bidir_poll (a, b, sab, sba) = (q, a', b', sab', sba')" "bidir_inv a b sab sba"
  shows "bidir_inv a' b' sab' sba' \<and> (\<forall>m. q \<noteq> Ready (Panic m))
    \<and> (\<forall>n m. q = Ready (Ok (n, m)) \<longrightarrow> all_copied a' b' n m)"
proof -
  obtain q1 s1 a1 b1 where 1: "transfer_one_direction a b sab = (q1, s1, a1, b1)" by (metis prod_cases4)
  obtain q2 s2 b2 a2 where 2: "transfer_one_direction b1 a1 sba = (q2, s2, b2, a2)" by (metis prod_cases4)
  note first = transfer.first_direction [OF 1, of sba] and bd = transfer.both_directions [OF 1 2]
  have fin: "all_copied a2 b2 n m" if "q1 = Ready (Ok n)" "q2 = Ready (Ok m)" for n m
    using bd that all_copied_done assms(2) by (auto simp: bidir_inv_def)
  show ?thesis
  proof (cases "(\<exists>e. q1 = Ready (Err e)) \<or> (\<exists>m. q1 = Ready (Panic m))")
    case True
    with assms 1 first show ?thesis by (auto simp: plain_bidir_poll_def bidir_inv_def)
  next
    case False
    then have "q1 = Pending \<or> (\<exists>n. q1 = Ready (Ok n))" by (metis poll.exhaust result.exhaust)
    with assms 1 2 bd fin show ?thesis
      by (auto simp: plain_bidir_poll_def bidir_inv_def split: poll.splits result.splits)
  qed
qed

lemma plain_bidir_polls_inv:
  "plain_bidir_polls k (a, b, sab, sba) = (q, a', b', sab', sba') \<Longrightarrow> bidir_inv a b sab sba \<Longrightarrow>
   bidir_inv a' b' sab' sba' \<and> (\<forall>m. q \<noteq> Ready (Panic m))
   \<and> (\<forall>n m. q = Ready (Ok (n, m)) \<longrightarrow> all_copied a' b' n m)"
proof (induction k arbitrary: a b sab sba)
  case (Suc k)
  obtain p a1 b1 s1 s2 where p: "plain_bidir_poll (a, b, sab, sba) = (p, a1, b1, s1, s2)"
    by (metis prod_cases5)
  from plain_bidir_pollE [OF p Suc.prems(2)] Suc.IH [of a1 b1 s1 s2] Suc.prems(1) p
  show ?case by (cases p) auto
qed simp

section \<open>The idle timer\<close>

definition amounts :: "copy_bidir \<Rightarrow> u64 \<times> u64" where
  "amounts s = (a_to_b_amt s, b_to_a_amt s)"

text \<open>The pending polls of a run: their times and the states they left.\<close>

fun copy_states :: "nat list \<Rightarrow> copy_bidir \<Rightarrow> (nat \<times> copy_bidir) list" where
  "copy_states [] s = []"
| "copy_states (now # nows) s =
     (case copy_bidir_poll now s of
        (Pending, s') \<Rightarrow> (now, s') # copy_states nows s'
      | (Ready _, _) \<Rightarrow> [])"

text \<open>In a half-closed connection one direction stays ready, so the timer is not consulted.\<close>

definition half_done :: "copy_bidir \<Rightarrow> bool" where
  "half_done s \<longleftrightarrow> (\<exists>n. a_to_b_state s = Done n) \<or> (\<exists>n. b_to_a_state s = Done n)"

definition both_pending :: "copy_bidir \<Rightarrow> bool" where
  "both_pending s \<longleftrightarrow>
     (case transfer_one_direction (cb_a s) (cb_b s) (a_to_b_state s) of
        (q1, sab, a1, b1) \<Rightarrow> q1 = Pending \<and> fst (transfer_one_direction b1 a1 (b_to_a_state s)) = Pending)"

lemma half_done_not_pending: "half_done s \<Longrightarrow> \<not> both_pending s"
  by (auto simp: half_done_def both_pending_def transfer_done split: prod.splits)

definition timer_ok :: "(nat \<times> copy_bidir) list \<Rightarrow> copy_bidir \<Rightarrow> bool" where
  "timer_ok hist s \<longleftrightarrow> (\<forall>sl. cb_sleep s = Some sl \<longrightarrow> half_done s \<or>
     (\<exists>xs t s1 ys. hist = xs @ (t, s1) # ys \<and> sl_deadline sl = t + cb_timeout s
        \<and> (\<forall>(u, s2) \<in> set ((t, s1) # ys). amounts s2 = amounts s)))"

lemma copy_bidir_poll_timeout: "copy_bidir_poll now s = (q, s') \<Longrightarrow> cb_timeout s' = cb_timeout s"
  by (erule copy_bidir_pollE) (auto dest: idle_check_fields(7))

lemma idle_check_pending:
  assumes "idle_check now idle s = (Pending, s')" "cb_sleep s' = Some sl"
  shows "idle \<and> (cb_sleep s = None \<and> sl = sleep_new now (cb_timeout s)
    \<or> (\<exists>sl0. cb_sleep s = Some sl0 \<and> sl_deadline sl = sl_deadline sl0))"
  using assms
  by (auto simp: idle_check_def poll_sleep_def split: if_splits option.splits prod.splits bool.splits)

lemma timer_ok_idle:
  assumes "timer_ok hist s" "both_pending s" "cb_timeout s2 = cb_timeout s" "cb_sleep s2 = cb_sleep s"
    and "idle_check now (amounts s = amounts s2) s2 = (Pending, s')"
  shows "timer_ok (hist @ [(now, s')]) s'"
  unfolding timer_ok_def
proof (intro allI impI)
  fix sl
  assume "cb_sleep s' = Some sl"
  note ic = idle_check_pending [OF assms(5) this]
  have am: "amounts s' = amounts s" and tm: "cb_timeout s' = cb_timeout s"
    using idle_check_fields [OF assms(5)] ic assms(3) by (simp_all add: amounts_def)
  show "half_done s' \<or> (\<exists>xs t s1 ys. hist @ [(now, s')] = xs @ (t, s1) # ys
      \<and> sl_deadline sl = t + cb_timeout s' \<and> (\<forall>(u, s2) \<in> set ((t, s1) # ys). amounts s2 = amounts s'))"
  proof (cases "cb_sleep s")
    case None
    with ic assms(3,4) have "sl_deadline sl = now + cb_timeout s'" by (auto simp: sleep_new_def tm)
    then show ?thesis by (intro disjI2 exI [of _ hist] exI [of _ now] exI [of _ s'] exI [of _ "[]"]) simp
  next
    case (Some sl0)
    with assms(1,2) half_done_not_pending obtain xs t s1 ys where h: "hist = xs @ (t, s1) # ys"
      "sl_deadline sl0 = t + cb_timeout s" "\<forall>(u, s2) \<in> set ((t, s1) # ys). amounts s2 = amounts s"
      unfolding timer_ok_def by blast
    from Some ic assms(4) have "sl_deadline sl = sl_deadline sl0" by auto
    with h am tm show ?thesis
      by (intro disjI2 exI [of _ xs] exI [of _ t] exI [of _ s1] exI [of _ "ys @ [(now, s')]"]) auto
  qed
qed

lemma copy_bidir_poll_timer:
  assumes "copy_bidir_poll now s = (Pending, s')" "timer_ok hist s"
  shows "timer_ok (hist @ [(now, s')]) s'"
  using assms(1)
proof (cases rule: copy_bidir_pollE)
  case (both q1 sab a1 b1 q2 sba a2 b2 amt1 amt2 s2)
  then have t: "transfer_one_direction (cb_a s) (cb_b s) (a_to_b_state s) = (q1, sab, a1, b1)"
    "transfer_one_direction b1 a1 (b_to_a_state s) = (q2, sba, b2, a2)"
    by (simp_all add: copy_one_is_transfer)
  from both(4) consider (idle) "q1 = Pending" "q2 = Pending"
      "idle_check now (a_to_b_amt s = amt1 \<and> b_to_a_amt s = amt2) s2 = (Pending, s')"
    | (half) "s' = s2" "(\<exists>n. q1 = Ready (Ok n)) \<or> (\<exists>m. q2 = Ready (Ok m))"
    by blast
  then show ?thesis
  proof cases
    case idle
    then have "both_pending s" using t by (simp add: both_pending_def)
    moreover have "(amounts s = amounts s2) = (a_to_b_amt s = amt1 \<and> b_to_a_amt s = amt2)"
      by (simp add: amounts_def both(3))
    ultimately show ?thesis
      using timer_ok_idle [OF assms(2), of s2 now s'] idle(3) both(3) by simp
  next
    case half
    then have "half_done s'"
      using t both(3) by (auto simp: half_done_def dest: transfer_ends_done)
    then show ?thesis by (simp add: timer_ok_def)
  qed
qed auto

lemma copy_bidir_polls_timer:
  "copy_bidir_polls nows s = (Pending, s') \<Longrightarrow> timer_ok hist s \<Longrightarrow>
   timer_ok (hist @ copy_states nows s) s' \<and> cb_timeout s' = cb_timeout s"
proof (induction nows arbitrary: s hist)
  case (Cons now nows)
  obtain p s1 where p: "copy_bidir_poll now s = (p, s1)" by fastforce
  with Cons.prems(1) have pend: "p = Pending" by (cases p) auto
  from copy_bidir_poll_timer [OF p [unfolded pend] Cons.prems(2)] Cons.IH [of s1] Cons.prems(1) p pend
    copy_bidir_poll_timeout [OF p]
  show ?case by fastforce
qed simp

lemma copy_bidir_poll_idle_error:
  assumes "copy_bidir_poll now s = (Ready (Err idle_error), s')" "both_pending s"
  shows "amounts s' = amounts s \<and> (\<exists>sl. cb_sleep s = Some sl \<and> sl_deadline sl \<le> now)"
  using assms(1)
proof (cases rule: copy_bidir_pollE)
  case (first q1 sab a1 b1 amt1)
  with assms(2) show ?thesis by (auto simp: both_pending_def copy_one_is_transfer)
next
  case (both q1 sab a1 b1 q2 sba a2 b2 amt1 amt2 s2)
  with assms(2) have ic: "idle_check now (a_to_b_amt s = amt1 \<and> b_to_a_amt s = amt2) s2 =
      (Ready (Err idle_error), s')"
    by (auto simp: both_pending_def copy_one_is_transfer)
  then have "a_to_b_amt s = amt1 \<and> b_to_a_amt s = amt2"
    "\<exists>sl. cb_sleep s2 = Some sl \<and> sl_deadline sl \<le> now"
    by (auto simp: idle_check_def poll_sleep_def split: if_splits option.splits prod.splits bool.splits)
  with idle_check_fields [OF ic] both(3) show ?thesis by (simp add: amounts_def)
qed

section \<open>Wakers\<close>

lemma copy_bidir_poll_armed:
  assumes "copy_bidir_poll now s = (Pending, s')"
  shows "armed (cb_a s') \<or> armed (cb_b s')"
  using assms
proof (cases rule: copy_bidir_pollE)
  case (both q1 sab a1 b1 q2 sba a2 b2 amt1 amt2 s2)
  then have t: "transfer_one_direction (cb_a s) (cb_b s) (a_to_b_state s) = (q1, sab, a1, b1)"
    "transfer_one_direction b1 a1 (b_to_a_state s) = (q2, sba, b2, a2)"
    by (simp_all add: copy_one_is_transfer)
  from both(4) have "q1 = Pending \<or> q2 = Pending" "cb_a s' = a2" "cb_b s' = b2"
    by (auto simp: both(3) dest: idle_check_fields(1,2))
  with transfer.xfer_wake [OF t(1)] transfer.xfer_wake [OF t(2)] show ?thesis by blast
qed auto

text \<open>Whether the idle timer will wake the task.\<close>

definition timer_wakes :: "copy_bidir \<Rightarrow> bool" where
  "timer_wakes s = (case cb_sleep s of None \<Rightarrow> False | Some sl \<Rightarrow> sl_armed sl)"

lemma idle_check_no_timer:
  "cb_sleep s = None \<Longrightarrow> fst (idle_check now idle s) = Pending \<and> \<not> timer_wakes (snd (idle_check now idle s))"
  by (simp add: idle_check_def timer_wakes_def sleep_new_def)

lemma copy_bidir_poll_unarmed:
  assumes "both_pending s" "cb_sleep s = None"
  shows "fst (copy_bidir_poll now s) = Pending \<and> \<not> timer_wakes (snd (copy_bidir_poll now s))"
proof -
  obtain q s' where p: "copy_bidir_poll now s = (q, s')" by fastforce
  then show ?thesis
  proof (cases rule: copy_bidir_pollE)
    case (first q1 sab a1 b1 amt1)
    with assms(1) show ?thesis by (auto simp: both_pending_def copy_one_is_transfer)
  next
    case (both q1 sab a1 b1 q2 sba a2 b2 amt1 amt2 s2)
    with assms(1) have "idle_check now (a_to_b_amt s = amt1 \<and> b_to_a_amt s = amt2) s2 = (q, s')"
      by (auto simp: both_pending_def copy_one_is_transfer)
    moreover have "cb_sleep s2 = None" using both(3) assms(2) by simp
    note idle_check_no_timer [OF this, of now "a_to_b_amt s = amt1 \<and> b_to_a_amt s = amt2"]
    ultimately show ?thesis using p by simp
  qed
qed

section \<open>The two entry points agree\<close>

definition plain_view :: "copy_bidir \<Rightarrow> endpoint \<times> endpoint \<times> transfer_state \<times> transfer_state" where
  "plain_view s = (cb_a s, cb_b s, a_to_b_state s, b_to_a_state s)"

lemma idle_check_view: "idle_check now idle s = (q, s') \<Longrightarrow> plain_view s' = plain_view s"
  using idle_check_fields(1-4) by (simp add: plain_view_def)

lemma copy_bidir_poll_plain:
  assumes "copy_bidir_poll now s = (q, s')" "q \<noteq> Ready (Err idle_error)"
  shows "plain_bidir_poll (plain_view s) = (q, plain_view s')"
  using assms(1)
proof (cases rule: copy_bidir_pollE)
  case (first q1 sab a1 b1 amt1)
  then show ?thesis by (auto simp: plain_view_def plain_bidir_poll_def copy_one_is_transfer)
next
  case (both q1 sab a1 b1 q2 sba a2 b2 amt1 amt2 s2)
  then have t: "transfer_one_direction (cb_a s) (cb_b s) (a_to_b_state s) = (q1, sab, a1, b1)"
    "transfer_one_direction b1 a1 (b_to_a_state s) = (q2, sba, b2, a2)"
    by (simp_all add: copy_one_is_transfer)
  have v2: "plain_view s2 = (a2, b2, sab, sba)" by (simp add: plain_view_def both(3))
  show ?thesis
  proof (cases "(\<exists>e. q1 = Ready (Err e)) \<or> (\<exists>m. q1 = Ready (Panic m))")
    case True
    with both(1) assms(1) show ?thesis
      by (auto simp: plain_view_def plain_bidir_poll_def t copy_bidir_poll_def Let_def)
  next
    case False
    then have q1: "q1 = Pending \<or> (\<exists>n. q1 = Ready (Ok n))" by (metis poll.exhaust result.exhaust)
    from both(4) q1 v2 assms(2) show ?thesis
      by (elim disjE exE conjE)
        (auto simp: plain_view_def plain_bidir_poll_def t dest: idle_check_fields(1-4,8))
  qed
qed

lemma copy_bidir_polls_plain:
  "copy_bidir_polls nows s = (q, s') \<Longrightarrow> q \<noteq> Ready (Err idle_error) \<Longrightarrow>
   plain_bidir_polls (length nows) (plain_view s) = (q, plain_view s')"
proof (induction nows arbitrary: s)
  case (Cons now nows)
  obtain p s1 where p: "copy_bidir_poll now s = (p, s1)" by fastforce
  with Cons.prems have "p \<noteq> Ready (Err idle_error)" by auto
  from copy_bidir_poll_plain [OF p this] Cons p show ?case by (cases p) auto
qed simp

section \<open>Streams that answer at once\<close>

text \<open>
  A stream whose reads give the chunks \<open>cs\<close> and then the end, and whose next \<open>k\<close> writes take
  everything.
\<close>

definition eager :: "bytes list \<Rightarrow> nat \<Rightarrow> endpoint" where
  "eager cs k =
     \<lparr>rd_script = map (\<lambda>c n. Ready (Ok (take n c))) cs @ [\<lambda>n. Ready (Ok [])],
      wr_script = replicate k (\<lambda>bs. Ready (Ok (length bs))),
      fl_script = [Ready (Ok ())], sh_script = [Ready (Ok ())],
      delivered = [], accepted = [], eof = False, closed = False, armed = False\<rparr>"

lemma write_phase_eager:
  assumes "cb_inv cb" "pos cb < cap cb" "wr_script w = (\<lambda>bs. Ready (Ok (length bs))) # fs"
  shows "write_phase cb w = (Ready (Ok ()),
     cb\<lparr>pos := cap cb, amt := amt cb + of_nat (cap cb - pos cb), need_flush := True\<rparr>,
     w\<lparr>wr_script := fs, accepted := accepted w @ unsent cb\<rparr>)"
proof -
  have "poll_write (unsent cb) w =
      (Ready (Ok (cap cb - pos cb)), w\<lparr>wr_script := fs, accepted := accepted w @ unsent cb\<rparr>)"
    using assms length_unsent [OF assms(1)] by (simp add: poll_write_def)
  with assms(2) show ?thesis
    by (subst write_phase.simps, simp) (subst write_phase.simps, simp)
qed

lemma poll_copy_eager:
  assumes "rd_script r = map (\<lambda>c n. Ready (Ok (take n c))) cs @ [\<lambda>n. Ready (Ok [])]"
    and "wr_script w = replicate k (\<lambda>bs. Ready (Ok (length bs)))" "length cs \<le> k"
    and "fl_script w = [Ready (Ok ())]"
    and "\<forall>c \<in> set cs. c \<noteq> [] \<and> length c \<le> length (buf cb)"
    and "cb_inv cb" "pos cb = cap cb" "\<not> read_done cb"
  shows "\<exists>n cb' r' w'. poll_copy cb r w = (Ready (Ok n), cb', r', w') \<and>
     delivered r' = delivered r @ concat cs \<and> wr_script r' = wr_script r \<and> fl_script r' = fl_script r
   \<and> sh_script r' = sh_script r \<and> rd_script w' = rd_script w \<and> sh_script w' = sh_script w"
  using assms
proof (induction cs arbitrary: cb r w k)
  case Nil
  then show ?case
    by (subst poll_copy.simps)
      (auto simp: begin_phase_def read_phase_def poll_read_def write_phase.simps poll_flush_def)
next
  case (Cons c cs)
  let ?r = "r\<lparr>rd_script := map (\<lambda>c n. Ready (Ok (take n c))) cs @ [\<lambda>n. Ready (Ok [])],
      delivered := delivered r @ c, eof := eof r\<rparr>"
  let ?cb = "cb\<lparr>pos := 0, cap := length c, buf := c @ drop (length c) (buf cb)\<rparr>"
  let ?cb2 = "?cb\<lparr>pos := length c, amt := amt cb + of_nat (length c), need_flush := True\<rparr>"
  have c: "c \<noteq> []" "length c \<le> length (buf cb)" using Cons.prems(5) by auto
  obtain k' where k: "k = Suc k'" using Cons.prems(3) by (cases k) auto
  have bp: "begin_phase cb r w = (None, ?cb, ?r, w)"
    using Cons.prems c by (simp add: begin_phase_def read_phase_def poll_read_def)
  have inv: "cb_inv ?cb" using c Cons.prems(6) by (auto simp: cb_inv_def)
  let ?w = "w\<lparr>wr_script := replicate k' (\<lambda>bs. Ready (Ok (length bs))), accepted := accepted w @ unsent ?cb\<rparr>"
  have "write_phase ?cb w = (Ready (Ok ()), ?cb2, ?w)"
    using write_phase_eager [OF inv, of w] c Cons.prems(2) k by simp
  then have "poll_copy cb r w = poll_copy ?cb2 ?r ?w"
    by (subst poll_copy.simps) (simp add: bp Cons.prems(8))
  moreover have "cb_inv ?cb2" using c Cons.prems(6) by (auto simp: cb_inv_def)
  ultimately show ?case
    using Cons.IH [of ?r ?w k' ?cb2] Cons.prems c k by simp
qed

lemma transfer_eager:
  assumes "rd_script r = map (\<lambda>c n. Ready (Ok (take n c))) cs @ [\<lambda>n. Ready (Ok [])]"
    and "wr_script w = replicate k (\<lambda>bs. Ready (Ok (length bs)))" "length cs \<le> k"
    and "fl_script w = [Ready (Ok ())]" "sh_script w = [Ready (Ok ())]"
    and "\<forall>c \<in> set cs. c \<noteq> [] \<and> length c \<le> sz" "0 < sz"
  shows "\<exists>n r' w'. transfer_one_direction r w (Running (copy_buf_new sz)) = (Ready (Ok n), Done n, r', w') \<and>
     delivered r' = delivered r @ concat cs \<and> wr_script r' = wr_script r \<and> fl_script r' = fl_script r
   \<and> sh_script r' = sh_script r \<and> rd_script w' = rd_script w"
proof -
  have "cb_inv (copy_buf_new sz)" "pos (copy_buf_new sz) = cap (copy_buf_new sz)"
    "\<not> read_done (copy_buf_new sz)" "length (buf (copy_buf_new sz)) = sz"
    using assms(7) by (simp_all add: copy_buf_new_def cb_inv_def)
  with poll_copy_eager [OF assms(1-4), of "copy_buf_new sz"] assms(6) obtain n cb' r' w' where
    pc: "poll_copy (copy_buf_new sz) r w = (Ready (Ok n), cb', r', w')" and
    fr: "delivered r' = delivered r @ concat cs" "wr_script r' = wr_script r" "fl_script r' = fl_script r"
      "sh_script r' = sh_script r" "rd_script w' = rd_script w" "sh_script w' = sh_script w"
    by auto
  from pc fr show ?thesis
    by (simp add: transfer_running transfer_shutting transfer_done poll_shutdown_def assms(5))
qed

section \<open>Properties\<close>

text \<open>
  C10: whatever the two streams do within their contract, and whenever the future is polled, the
  bytes written to each stream are a prefix of the bytes read from the other, in order; the copy
  never panics; and when it ends with counts, every byte was copied, the counts are the lengths,
  both ends were seen and both streams were shut down.
\<close>

theorem copy_bidir_integrity:
  assumes "endpoint_ok a" "endpoint_ok b" "fresh a" "fresh b" "0 < sz"
    and "copy_bidirectional_with_timeout a b sz timeout nows = (q, s)"
  shows "(\<exists>rest. delivered (cb_a s) = accepted (cb_b s) @ rest)
    \<and> (\<exists>rest. delivered (cb_b s) = accepted (cb_a s) @ rest)
    \<and> (\<forall>m. q \<noteq> Ready (Panic m))
    \<and> (\<forall>n m. q = Ready (Ok (n, m)) \<longrightarrow> all_copied (cb_a s) (cb_b s) n m)"
proof -
  from assms(6) have "copy_bidir_polls nows (copy_bidir_start a b sz timeout) = (q, s)"
    by (simp add: copy_bidirectional_with_timeout_def)
  from copy_bidir_polls_inv [OF this copy_bidir_start_inv [OF assms(1-5)]] show ?thesis
    by (auto simp: copy_bidir_inv_def bidir_inv_def dest: dir_inv_prefix)
qed

text \<open>Two streams for the witnesses: \<open>a\<close> gives three bytes in two reads, the writes are partial.\<close>

definition sample_a :: endpoint where
  "sample_a = \<lparr>rd_script = [\<lambda>n. Ready (Ok (take n [1, 2])), \<lambda>n. Ready (Ok (take n [3])), \<lambda>n. Pending,
       \<lambda>n. Ready (Ok [])],
     wr_script = [], fl_script = [Ready (Ok ())], sh_script = [Ready (Ok ())],
     delivered = [], accepted = [], eof = False, closed = False, armed = False\<rparr>"

definition sample_b :: endpoint where
  "sample_b = \<lparr>rd_script = [\<lambda>n. Ready (Ok [])],
     wr_script = replicate 3 (\<lambda>bs. Ready (Ok (min 1 (length bs)))),
     fl_script = [Ready (Ok ()), Ready (Ok ())], sh_script = [Ready (Ok ())],
     delivered = [], accepted = [], eof = False, closed = False, armed = False\<rparr>"

lemma sample_streams:
  "endpoint_ok sample_a" "endpoint_ok sample_b" "fresh sample_a" "fresh sample_b"
  by (simp_all add: sample_a_def sample_b_def endpoint_ok_def reader_ok_def writer_ok_def fresh_def
      numeral_3_eq_3)

lemmas copy_eval = copy_bidirectional_with_timeout_def copy_bidir_start_def copy_bidir_poll_def
  copy_one_is_transfer transfer_running transfer_shutting transfer_done poll_copy.simps
  begin_phase_def read_phase_def write_phase.simps unsent_def copy_buf_new_def
  poll_read_def poll_write_def poll_flush_def poll_shutdown_def idle_check_def poll_sleep_def
  sleep_new_def

lemma sample_run:
  "fst (copy_bidirectional_with_timeout sample_a sample_b 2 60 [0, 5]) = Ready (Ok (3, 0))"
  by (simp add: copy_eval sample_a_def sample_b_def numeral_2_eq_2 numeral_3_eq_3)

theorem copy_bidir_integrity_witness:
  "\<exists>s. copy_bidirectional_with_timeout sample_a sample_b 2 60 [0, 5] = (Ready (Ok (3, 0)), s)
     \<and> all_copied (cb_a s) (cb_b s) 3 0"
proof -
  obtain s where s: "copy_bidirectional_with_timeout sample_a sample_b 2 60 [0, 5] = (Ready (Ok (3, 0)), s)"
    using sample_run by (metis prod.collapse)
  with copy_bidir_integrity [OF sample_streams _ s] show ?thesis by simp
qed



lemma eager_ok: "endpoint_ok (eager cs k)"
  by (auto simp: eager_def endpoint_ok_def reader_ok_def writer_ok_def)

lemma eager_fresh: "fresh (eager cs k)"
  by (simp add: eager_def fresh_def)

text \<open>
  C11: when both streams hand over their chunks at once and take what they are given, one poll
  copies everything in both directions and returns the two lengths.
\<close>

theorem copy_bidir_completes:
  assumes "0 < sz" "\<forall>c \<in> set cs \<union> set ds. c \<noteq> [] \<and> length c \<le> sz"
    and "length ds \<le> ka" "length cs \<le> kb"
  shows "\<exists>s. copy_bidirectional_with_timeout (eager cs ka) (eager ds kb) sz timeout [now] =
       (Ready (Ok (of_nat (length (concat cs)), of_nat (length (concat ds)))), s)
     \<and> accepted (cb_b s) = concat cs \<and> accepted (cb_a s) = concat ds"
proof -
  have "\<exists>n a1 b1. transfer_one_direction (eager cs ka) (eager ds kb) (Running (copy_buf_new sz)) =
      (Ready (Ok n), Done n, a1, b1) \<and> delivered a1 = concat cs \<and> wr_script a1 = wr_script (eager cs ka)
     \<and> fl_script a1 = [Ready (Ok ())] \<and> sh_script a1 = [Ready (Ok ())] \<and> rd_script b1 = rd_script (eager ds kb)"
    using transfer_eager [of "eager cs ka" cs "eager ds kb" kb sz] assms by (simp add: eager_def)
  then obtain n a1 b1 where 1: "transfer_one_direction (eager cs ka) (eager ds kb) (Running (copy_buf_new sz)) =
      (Ready (Ok n), Done n, a1, b1)" "delivered a1 = concat cs" "wr_script a1 = wr_script (eager cs ka)"
      "fl_script a1 = [Ready (Ok ())]" "sh_script a1 = [Ready (Ok ())]" "rd_script b1 = rd_script (eager ds kb)"
    by blast
  have fr: "accepted a1 = []" "delivered b1 = []" using transfer.xfer_frame [OF 1(1)] by (simp_all add: eager_def)
  obtain m b2 a2 where 2: "transfer_one_direction b1 a1 (Running (copy_buf_new sz)) =
      (Ready (Ok m), Done m, b2, a2)" "delivered b2 = concat ds"
    using transfer_eager [of b1 ds a1 ka sz] 1 assms fr by (auto simp: eager_def)
  have fr2: "accepted b2 = accepted b1" "delivered a2 = delivered a1" using transfer.xfer_frame [OF 2(1)] by simp_all
  note bd = transfer.both_directions [OF 1(1) 2(1) eager_ok eager_ok dir_inv_start dir_inv_start,
      OF assms(1) eager_fresh eager_fresh assms(1) eager_fresh eager_fresh]
  have "copy_bidirectional_with_timeout (eager cs ka) (eager ds kb) sz timeout [now] = (Ready (Ok (n, m)),
      (copy_bidir_start (eager cs ka) (eager ds kb) sz timeout)\<lparr>cb_a := a2, cb_b := b2,
        a_to_b_state := Done n, b_to_a_state := Done m\<rparr>)"
    by (simp add: copy_bidirectional_with_timeout_def copy_bidir_poll_def copy_bidir_start_def
        copy_one_is_transfer 1(1) 2(1))
  moreover have "accepted b2 = concat cs" "accepted a2 = concat ds"
    "n = of_nat (length (concat cs))" "m = of_nat (length (concat ds))"
    using bd fr2 1(2) 2(2) by auto
  ultimately show ?thesis by simp
qed

theorem copy_bidir_completes_witness:
  "\<exists>s. copy_bidirectional_with_timeout (eager [[1, 2], [3]] 1) (eager [[9]] 2) 4 60 [0] = (Ready (Ok (3, 1)), s)
     \<and> accepted (cb_b s) = [1, 2, 3] \<and> accepted (cb_a s) = [9]"
  using copy_bidir_completes [of 4 "[[1, 2], [3]]" "[[9]]" 1 2 60 0] by simp

text \<open>
  C13: a poll that returns \<open>Pending\<close> has left the task's waker with one of the two streams, so the
  copy is polled again when that stream can make progress.
\<close>

theorem copy_bidir_pending_armed:
  "copy_bidir_poll now s = (Pending, s') \<Longrightarrow> armed (cb_a s') \<or> armed (cb_b s')"
  by (rule copy_bidir_poll_armed)

theorem copy_bidir_pending_armed_witness:
  "\<exists>s'. copy_bidir_poll 0 (copy_bidir_start sample_a sample_b 2 60) = (Pending, s')
     \<and> (armed (cb_a s') \<or> armed (cb_b s'))"
proof -
  have "fst (copy_bidir_poll 0 (copy_bidir_start sample_a sample_b 2 60)) = Pending"
    by (simp add: copy_eval sample_a_def sample_b_def numeral_2_eq_2 numeral_3_eq_3)
  then obtain s' where s': "copy_bidir_poll 0 (copy_bidir_start sample_a sample_b 2 60) = (Pending, s')"
    by (metis prod.collapse)
  with copy_bidir_pending_armed [OF s'] show ?thesis by simp
qed


text \<open>Two streams that never answer.\<close>

definition silent :: endpoint where
  "silent = \<lparr>rd_script = [], wr_script = [], fl_script = [], sh_script = [],
     delivered = [], accepted = [], eof = False, closed = False, armed = False\<rparr>"

lemma silent_run:
  "fst (copy_bidirectional_with_timeout silent silent 2 10 [3, 5]) = Pending"
  "both_pending (snd (copy_bidirectional_with_timeout silent silent 2 10 [3, 5]))"
  "fst (copy_bidir_poll 14 (snd (copy_bidirectional_with_timeout silent silent 2 10 [3, 5]))) =
    Ready (Err idle_error)"
  by (simp_all add: copy_eval silent_def both_pending_def)




end
