(* ===== verification/Dns_Upstream.thy ===== *)
theory Dns_Upstream
  imports Dns_Lib
begin

text \<open>
  \<open>crates/tun/src/dns_proxy.rs\<close>, lines 40 to 389: the DNS sessions, the framing of DNS over TCP, and
  the two futures of an upstream connection. \<open>SendFut\<close> takes queries from its channel, replaces
  their identifiers by session identifiers and sends them; \<open>RecvFut\<close> reads replies, finds the
  session, restores the identifier and sends the reply into the tunnel. Each \<open>poll\<close> is the loop of
  the source: one iteration is \<open>send_iter\<close> or \<open>recv_iter\<close> (\<open>None\<close> means that the loop goes on). The
  channel, the sockets, the lock and the tunnel are lists of their coming answers, after which they
  answer \<open>Pending\<close> (the tunnel: success). \<open>armed\<close> fields record that a poll left its waker with one
  of them. The sessions and the identifier counter are shared and passed as a record of their own.
  Calls of the logger have no effect on the state.
\<close>

section \<open>Sessions and framing\<close>

datatype dns_upstream_proto = Udp | Tcp

record udp_peer =
  peer_src :: socket_addr
  peer_dest :: socket_addr

record dns_session =
  ds_peer :: udp_peer
  ds_old_id :: u16
  ds_id :: u16
  ds_time :: nat

type_synonym sessions = "u16 \<rightharpoonup> dns_session"

text \<open>The counter and the session table, shared by all futures of a proxy.\<close>

record shared =
  sh_id :: u16
  sh_sessions :: sessions

datatype dns_error = TooLargeForTcp nat | ChannelShutdown | RecvError io_error | RecvCanceled
  | TcpUpstreamClosed

definition frame_dns_tcp :: "bytes \<Rightarrow> (bytes, dns_error) result" where
  "frame_dns_tcp payload =
     (let len = length payload in
      if 65535 < len then Err (TooLargeForTcp len)
      else Ok ([of_nat (drop_bit 8 len), of_nat (and len 0xff)] @ payload))"

section \<open>The sending future\<close>

datatype send_state = SBegin | SSend bytes | SLock

text \<open>
  \<open>sf_rx\<close> and \<open>sf_rx_closed\<close> are the channel (closed when the sender was dropped), \<open>sf_wr\<close> the
  coming answers of the socket to a send, \<open>sf_lock\<close> those of the mutex of the sessions; \<open>sf_sent\<close>
  records each accepted piece with the destination the call names.
\<close>

record 'm send_fut =
  sf_state :: send_state
  sf_session :: "dns_session option"
  sf_proto :: dns_upstream_proto
  sf_sendn :: nat
  sf_rx :: "(udp_peer \<times> 'm) list"
  sf_rx_closed :: bool
  sf_wr :: "(bytes \<Rightarrow> nat io_result poll) list"
  sf_lock :: "bool list"
  sf_sent :: "(socket_addr \<times> bytes) list"
  sf_armed :: bool

type_synonym fut_out = "(unit, dns_error) result poll"

definition send_begin ::
    "('m, 'q, 'n, 'r) dns_lib \<Rightarrow> nat \<Rightarrow> 'm send_fut \<Rightarrow> shared \<Rightarrow> fut_out option \<times> 'm send_fut \<times> shared" where
  "send_begin L now f sh =
     (case sf_rx f of
        [] \<Rightarrow> if sf_rx_closed f then (Some (Ready (Err ChannelShutdown)), f, sh)
              else (Some Pending, f\<lparr>sf_armed := True\<rparr>, sh)
      | (peer, message) # rx \<Rightarrow>
        (let id = sh_id sh;
             sh' = sh\<lparr>sh_id := id + 1\<rparr>;
             message' = set_id L id message;
             f' = f\<lparr>sf_rx := rx,
                    sf_session := Some \<lparr>ds_peer = peer, ds_old_id = msg_id L message, ds_id = id,
                                        ds_time = now\<rparr>\<rparr> in
         case to_vec L message' of
           None \<Rightarrow> (None, f', sh')
         | Some payload \<Rightarrow>
           (case sf_proto f of
              Udp \<Rightarrow> (None, f'\<lparr>sf_state := SSend payload\<rparr>, sh')
            | Tcp \<Rightarrow>
              (case frame_dns_tcp payload of
                 Ok v \<Rightarrow> (None, f'\<lparr>sf_state := SSend v\<rparr>, sh')
               | _ \<Rightarrow> (None, f', sh')))))"

text \<open>\<open>poll_send_to\<close> on the UDP socket, \<open>poll_write\<close> on the TCP half.\<close>

definition poll_upstream_send ::
    "bytes \<Rightarrow> socket_addr \<Rightarrow> 'm send_fut \<Rightarrow> nat io_result poll \<times> 'm send_fut" where
  "poll_upstream_send bs dest f =
     (case sf_wr f of
        [] \<Rightarrow> (Pending, f\<lparr>sf_armed := True\<rparr>)
      | w # ws \<Rightarrow>
        (case w bs of
           Pending \<Rightarrow> (Pending, f\<lparr>sf_wr := ws, sf_armed := True\<rparr>)
         | Ready (Ok n) \<Rightarrow> (Ready (Ok n), f\<lparr>sf_wr := ws, sf_sent := sf_sent f @ [(dest, take n bs)]\<rparr>)
         | Ready r \<Rightarrow> (Ready r, f\<lparr>sf_wr := ws\<rparr>)))"

definition send_send :: "bytes \<Rightarrow> 'm send_fut \<Rightarrow> shared \<Rightarrow> fut_out option \<times> 'm send_fut \<times> shared" where
  "send_send msg f sh =
     (case sf_session f of
        None \<Rightarrow> (Some (Ready (Panic ''unwrap on None'')), f, sh)
      | Some sess \<Rightarrow>
        if length msg < sf_sendn f then (Some (Ready (Panic ''slice index'')), f, sh)
        else
          (case poll_upstream_send (drop (sf_sendn f) msg) (peer_dest (ds_peer sess)) f of
             (Ready (Ok n), f1) \<Rightarrow>
               (let f2 = f1\<lparr>sf_sendn := sf_sendn f1 + n\<rparr> in
                if sf_sendn f2 < length msg then (Some Pending, f2, sh)
                else (None, f2\<lparr>sf_state := SLock\<rparr>, sh))
           | (Ready (Err e), f1) \<Rightarrow>
               if err_kind e = WouldBlock then (Some Pending, f1, sh)
               else (Some (Ready (Err (RecvError e))), f1, sh)
           | (Ready (Panic m), f1) \<Rightarrow> (Some (Ready (Panic m)), f1, sh)
           | (Pending, f1) \<Rightarrow> (Some Pending, f1, sh)))"

definition send_lock :: "'m send_fut \<Rightarrow> shared \<Rightarrow> fut_out option \<times> 'm send_fut \<times> shared" where
  "send_lock f sh =
     (case sf_lock f of
        [] \<Rightarrow> (Some Pending, f\<lparr>sf_armed := True\<rparr>, sh)
      | False # ls \<Rightarrow> (Some Pending, f\<lparr>sf_lock := ls, sf_armed := True\<rparr>, sh)
      | True # ls \<Rightarrow>
        (case sf_session f of
           None \<Rightarrow> (Some (Ready (Panic ''unwrap on None'')), f\<lparr>sf_lock := ls\<rparr>, sh)
         | Some session \<Rightarrow>
           (None, f\<lparr>sf_lock := ls, sf_session := None, sf_sendn := 0, sf_state := SBegin\<rparr>,
            sh\<lparr>sh_sessions := (sh_sessions sh)(ds_id session \<mapsto> session)\<rparr>)))"

definition send_iter ::
    "('m, 'q, 'n, 'r) dns_lib \<Rightarrow> nat \<Rightarrow> 'm send_fut \<Rightarrow> shared \<Rightarrow> fut_out option \<times> 'm send_fut \<times> shared" where
  "send_iter L now f sh =
     (case sf_state f of
        SBegin \<Rightarrow> send_begin L now f sh
      | SSend msg \<Rightarrow> send_send msg f sh
      | SLock \<Rightarrow> send_lock f sh)"

fun send_rank :: "send_state \<Rightarrow> nat" where
  "send_rank SBegin = 0" | "send_rank SLock = 1" | "send_rank (SSend _) = 2"

definition send_measure :: "'m send_fut \<Rightarrow> nat" where
  "send_measure f = 3 * length (sf_rx f) + send_rank (sf_state f)"

lemma poll_upstream_sendD:
  assumes "poll_upstream_send bs d f = (q, f1)"
  shows "sf_rx f1 = sf_rx f" "sf_state f1 = sf_state f" "sf_session f1 = sf_session f"
    "sf_sendn f1 = sf_sendn f" "sf_lock f1 = sf_lock f" "sf_proto f1 = sf_proto f"
    "sf_rx_closed f1 = sf_rx_closed f" "q = Pending \<Longrightarrow> sf_armed f1"
    "\<And>x. q = Ready x \<Longrightarrow> sf_armed f1 = sf_armed f"
    "sf_sent f1 = sf_sent f @ (case q of Ready (Ok n) \<Rightarrow> [(d, take n bs)] | _ \<Rightarrow> [])"
  using assms by (auto simp: poll_upstream_send_def split: list.splits poll.splits result.splits)

lemma send_iter_decreases:
  assumes "send_iter L now f sh = (None, f', sh')"
  shows "send_measure f' < send_measure f"
proof (cases "sf_state f")
  case SBegin
  with assms show ?thesis
    by (auto simp: send_iter_def send_begin_def send_measure_def Let_def
        split: list.splits if_splits option.splits dns_upstream_proto.splits result.splits)
next
  case (SSend msg)
  with assms show ?thesis
    by (auto simp: send_iter_def send_send_def send_measure_def Let_def dest: poll_upstream_sendD(1)
        split: option.splits if_splits prod.splits poll.splits result.splits)
next
  case SLock
  with assms show ?thesis
    by (auto simp: send_iter_def send_lock_def send_measure_def split: list.splits bool.splits option.splits)
qed

function send_poll ::
    "('m, 'q, 'n, 'r) dns_lib \<Rightarrow> nat \<Rightarrow> 'm send_fut \<Rightarrow> shared \<Rightarrow> fut_out \<times> 'm send_fut \<times> shared" where
  "send_poll L now f sh =
     (case send_iter L now f sh of
        (Some out, f', sh') \<Rightarrow> (out, f', sh')
      | (None, f', sh') \<Rightarrow> send_poll L now f' sh')"
  by pat_completeness auto
termination
  by (relation "measure (\<lambda>(L, now, f, sh). send_measure f)") (auto dest: send_iter_decreases [OF sym])

declare send_poll.simps [simp del]

definition send_fut_new ::
    "dns_upstream_proto \<Rightarrow> (udp_peer \<times> 'm) list \<Rightarrow> bool \<Rightarrow> (bytes \<Rightarrow> nat io_result poll) list \<Rightarrow> bool list
     \<Rightarrow> 'm send_fut" where
  "send_fut_new proto rx closed wr lock =
     \<lparr>sf_state = SBegin, sf_session = None, sf_proto = proto, sf_sendn = 0, sf_rx = rx,
      sf_rx_closed = closed, sf_wr = wr, sf_lock = lock, sf_sent = [], sf_armed = False\<rparr>"

section \<open>The receiving future\<close>

datatype recv_state = RBegin | RTcpHeader nat | RTcpBody nat nat | RLock

text \<open>
  \<open>rf_rd\<close> are the coming answers of the socket to a read with the given room, \<open>rf_tun\<close> what was
  sent into the tunnel (data, from, to) and \<open>rf_tun_err\<close> the outcomes of the coming sends there
  (\<open>None\<close>, and an exhausted list, is success). \<open>rf_running\<close> is the flag that dropping the
  \<open>UpstreamSender\<close> clears, \<open>rf_cancel_waker\<close> its \<open>AtomicWaker\<close>, \<open>rf_read\<close> all bytes read so far.
\<close>

record 'm recv_fut =
  rf_state :: recv_state
  rf_proto :: dns_upstream_proto
  rf_running :: bool
  rf_rd :: "(nat \<Rightarrow> bytes io_result poll) list"
  rf_lock :: "bool list"
  rf_msg :: "'m option"
  rf_buf :: bytes
  rf_tun :: "(bytes \<times> socket_addr \<times> socket_addr) list"
  rf_tun_err :: "io_error option list"
  rf_cancel_waker :: bool
  rf_armed :: bool
  rf_read :: bytes

definition recv_fut_new ::
    "dns_upstream_proto \<Rightarrow> (nat \<Rightarrow> bytes io_result poll) list \<Rightarrow> bool list \<Rightarrow> 'm recv_fut" where
  "recv_fut_new proto rd lock =
     \<lparr>rf_state = RBegin, rf_proto = proto, rf_running = True, rf_rd = rd, rf_lock = lock,
      rf_msg = None, rf_buf = replicate 1500 0, rf_tun = [], rf_tun_err = [],
      rf_cancel_waker = False, rf_armed = False, rf_read = []\<rparr>"

text \<open>A read into \<open>buf[from..to]\<close>; the bytes read overwrite the buffer from \<open>from\<close> on.\<close>

definition poll_upstream_recv ::
    "nat \<Rightarrow> nat \<Rightarrow> 'm recv_fut \<Rightarrow> bytes io_result poll \<times> 'm recv_fut" where
  "poll_upstream_recv from to f =
     (case rf_rd f of
        [] \<Rightarrow> (Pending, f\<lparr>rf_armed := True\<rparr>)
      | r # rs \<Rightarrow>
        (case r (to - from) of
           Pending \<Rightarrow> (Pending, f\<lparr>rf_rd := rs, rf_armed := True\<rparr>)
         | Ready (Ok bs) \<Rightarrow>
             (Ready (Ok bs), f\<lparr>rf_rd := rs, rf_read := rf_read f @ bs,
                rf_buf := take from (rf_buf f) @ bs @ drop (from + length bs) (rf_buf f)\<rparr>)
         | Ready x \<Rightarrow> (Ready x, f\<lparr>rf_rd := rs\<rparr>)))"

definition recv_io_error :: "io_error \<Rightarrow> fut_out" where
  "recv_io_error e = (if err_kind e = WouldBlock then Pending else Ready (Err (RecvError e)))"

definition recv_begin ::
    "('m, 'q, 'n, 'r) dns_lib \<Rightarrow> 'm recv_fut \<Rightarrow> fut_out option \<times> 'm recv_fut" where
  "recv_begin L f =
     (case rf_proto f of
        Tcp \<Rightarrow> (None, f\<lparr>rf_state := RTcpHeader 0\<rparr>)
      | Udp \<Rightarrow>
        (case poll_upstream_recv 0 (length (rf_buf f)) f of
           (Pending, f1) \<Rightarrow> (Some Pending, f1)
         | (Ready (Err e), f1) \<Rightarrow> (Some (recv_io_error e), f1)
         | (Ready (Panic m), f1) \<Rightarrow> (Some (Ready (Panic m)), f1)
         | (Ready (Ok bs), f1) \<Rightarrow>
           (case from_vec L (take (length bs) (rf_buf f1)) of
              None \<Rightarrow> (None, f1)
            | Some m \<Rightarrow> (None, f1\<lparr>rf_msg := Some m, rf_state := RLock\<rparr>))))"

definition recv_header :: "nat \<Rightarrow> 'm recv_fut \<Rightarrow> fut_out option \<times> 'm recv_fut" where
  "recv_header got f =
     (if rf_proto f = Udp then (Some (Ready (Panic ''tcp recv state without tcp upstream'')), f)
      else if 2 < got \<or> length (rf_buf f) < 2 then (Some (Ready (Panic ''slice index'')), f)
      else
        (case poll_upstream_recv got 2 f of
           (Pending, f1) \<Rightarrow> (Some Pending, f1)
         | (Ready (Err e), f1) \<Rightarrow> (Some (recv_io_error e), f1)
         | (Ready (Panic m), f1) \<Rightarrow> (Some (Ready (Panic m)), f1)
         | (Ready (Ok bs), f1) \<Rightarrow>
           if bs = [] then (Some (Ready (Err TcpUpstreamClosed)), f1)
           else
             (let got' = got + length bs in
              if got' < 2 then (Some Pending, f1\<lparr>rf_state := RTcpHeader got'\<rparr>)
              else
                (let len = unat (u16_from_be_bytes [rf_buf f1 ! 0, rf_buf f1 ! 1]) in
                 if len = 0 then (None, f1\<lparr>rf_state := RBegin\<rparr>)
                 else
                   (None, f1\<lparr>rf_buf := (if length (rf_buf f1) < len
                                       then rf_buf f1 @ replicate (len - length (rf_buf f1)) 0
                                       else rf_buf f1),
                             rf_state := RTcpBody len 0\<rparr>)))))"

definition recv_body ::
    "('m, 'q, 'n, 'r) dns_lib \<Rightarrow> nat \<Rightarrow> nat \<Rightarrow> 'm recv_fut \<Rightarrow> fut_out option \<times> 'm recv_fut" where
  "recv_body L len got f =
     (if rf_proto f = Udp then (Some (Ready (Panic ''tcp recv state without tcp upstream'')), f)
      else if len < got \<or> length (rf_buf f) < len then (Some (Ready (Panic ''slice index'')), f)
      else
        (case poll_upstream_recv got len f of
           (Pending, f1) \<Rightarrow> (Some Pending, f1)
         | (Ready (Err e), f1) \<Rightarrow> (Some (recv_io_error e), f1)
         | (Ready (Panic m), f1) \<Rightarrow> (Some (Ready (Panic m)), f1)
         | (Ready (Ok bs), f1) \<Rightarrow>
           if bs = [] then (Some (Ready (Err TcpUpstreamClosed)), f1)
           else
             (let got' = got + length bs in
              if got' < len then (Some Pending, f1\<lparr>rf_state := RTcpBody len got'\<rparr>)
              else
                (case from_vec L (take len (rf_buf f1)) of
                   None \<Rightarrow> (None, f1\<lparr>rf_state := RBegin\<rparr>)
                 | Some m \<Rightarrow> (None, f1\<lparr>rf_msg := Some m, rf_state := RLock\<rparr>)))))"

definition tun_send ::
    "bytes \<Rightarrow> socket_addr \<Rightarrow> socket_addr \<Rightarrow> 'm recv_fut \<Rightarrow> unit io_result \<times> 'm recv_fut" where
  "tun_send data src dst f =
     (case rf_tun_err f of
        Some e # es \<Rightarrow> (Err e, f\<lparr>rf_tun_err := es\<rparr>)
      | None # es \<Rightarrow> (Ok (), f\<lparr>rf_tun_err := es, rf_tun := rf_tun f @ [(data, src, dst)]\<rparr>)
      | [] \<Rightarrow> (Ok (), f\<lparr>rf_tun := rf_tun f @ [(data, src, dst)]\<rparr>))"

text \<open>What is done with a reply once the lock is held.\<close>

definition recv_deliver ::
    "('m, 'q, 'n, 'r) dns_lib \<Rightarrow> 'm \<Rightarrow> 'm recv_fut \<Rightarrow> shared \<Rightarrow> fut_out option \<times> 'm recv_fut \<times> shared" where
  "recv_deliver L msg f sh =
     (case sh_sessions sh (msg_id L msg) of
        None \<Rightarrow> (None, f\<lparr>rf_state := RBegin\<rparr>, sh)
      | Some session \<Rightarrow>
        (let sh' = sh\<lparr>sh_sessions := (sh_sessions sh)(msg_id L msg := None)\<rparr> in
         case to_vec L (set_id L (ds_old_id session) msg) of
           None \<Rightarrow> (None, f\<lparr>rf_state := RBegin\<rparr>, sh')
         | Some data \<Rightarrow>
           (case tun_send data (peer_dest (ds_peer session)) (peer_src (ds_peer session)) f of
              (Ok _, f1) \<Rightarrow> (None, f1\<lparr>rf_state := RBegin\<rparr>, sh')
            | (_, f1) \<Rightarrow> (Some (Ready (Panic ''unwrap on Err'')), f1, sh'))))"

definition recv_lock ::
    "('m, 'q, 'n, 'r) dns_lib \<Rightarrow> 'm recv_fut \<Rightarrow> shared \<Rightarrow> fut_out option \<times> 'm recv_fut \<times> shared" where
  "recv_lock L f sh =
     (case rf_lock f of
        [] \<Rightarrow> (Some Pending, f\<lparr>rf_armed := True\<rparr>, sh)
      | False # ls \<Rightarrow> (Some Pending, f\<lparr>rf_lock := ls, rf_armed := True\<rparr>, sh)
      | True # ls \<Rightarrow>
        (case rf_msg f of
           None \<Rightarrow> (Some (Ready (Panic ''unwrap on None'')), f\<lparr>rf_lock := ls\<rparr>, sh)
         | Some msg \<Rightarrow> recv_deliver L msg (f\<lparr>rf_lock := ls, rf_msg := None\<rparr>) sh))"

definition recv_iter ::
    "('m, 'q, 'n, 'r) dns_lib \<Rightarrow> 'm recv_fut \<Rightarrow> shared \<Rightarrow> fut_out option \<times> 'm recv_fut \<times> shared" where
  "recv_iter L f sh =
     (if \<not> rf_running f then (Some (Ready (Err RecvCanceled)), f, sh)
      else
        (let f0 = f\<lparr>rf_cancel_waker := True\<rparr> in
         case rf_state f of
           RBegin \<Rightarrow> (case recv_begin L f0 of (out, f1) \<Rightarrow> (out, f1, sh))
         | RTcpHeader got \<Rightarrow> (case recv_header got f0 of (out, f1) \<Rightarrow> (out, f1, sh))
         | RTcpBody len got \<Rightarrow> (case recv_body L len got f0 of (out, f1) \<Rightarrow> (out, f1, sh))
         | RLock \<Rightarrow> recv_lock L f0 sh))"

fun recv_rank :: "recv_state \<Rightarrow> nat" where
  "recv_rank RBegin = 1" | "recv_rank (RTcpHeader _) = 0" | "recv_rank (RTcpBody _ _) = 0"
| "recv_rank RLock = 2"

definition recv_measure :: "'m recv_fut \<Rightarrow> nat" where
  "recv_measure f = 3 * length (rf_rd f) + recv_rank (rf_state f)"

lemma poll_upstream_recvD:
  assumes "poll_upstream_recv from to f = (q, f1)"
  shows "rf_state f1 = rf_state f" "rf_proto f1 = rf_proto f" "rf_running f1 = rf_running f"
    "rf_lock f1 = rf_lock f" "rf_msg f1 = rf_msg f" "rf_tun f1 = rf_tun f"
    "rf_tun_err f1 = rf_tun_err f" "q = Pending \<Longrightarrow> rf_armed f1"
    "\<And>x. q = Ready x \<Longrightarrow> rf_armed f1 = rf_armed f"
    "\<And>x. q = Ready x \<Longrightarrow> length (rf_rd f1) < length (rf_rd f)"
    "rf_read f1 = rf_read f @ (case q of Ready (Ok bs) \<Rightarrow> bs | _ \<Rightarrow> [])"
    "rf_cancel_waker f1 = rf_cancel_waker f"
    "rf_buf f1 = (case q of
       Ready (Ok bs) \<Rightarrow> take from (rf_buf f) @ bs @ drop (from + length bs) (rf_buf f) | _ \<Rightarrow> rf_buf f)"
    "set (rf_rd f1) \<subseteq> set (rf_rd f)"
    "\<And>x. q = Ready x \<Longrightarrow> \<exists>r \<in> set (rf_rd f). r (to - from) = Ready x"
  using assms by (auto simp: poll_upstream_recv_def split: list.splits poll.splits result.splits)

lemma poll_upstream_recv_ready:
  "poll_upstream_recv from to f = (Ready x, f1) \<Longrightarrow>
   rf_state f1 = rf_state f \<and> length (rf_rd f1) < length (rf_rd f)"
  using poll_upstream_recvD(1,10) by blast

lemma recv_deliver_frame:
  assumes "recv_deliver L msg f sh = (out, f', sh')"
  shows "rf_rd f' = rf_rd f" "out = None \<Longrightarrow> rf_state f' = RBegin" "rf_armed f' = rf_armed f"
    "rf_lock f' = rf_lock f" "rf_msg f' = rf_msg f" "rf_buf f' = rf_buf f" "rf_read f' = rf_read f"
    "rf_proto f' = rf_proto f" "rf_running f' = rf_running f" "sh_id sh' = sh_id sh"
  using assms by (auto simp: recv_deliver_def tun_send_def Let_def
      split: option.splits prod.splits result.splits list.splits)

lemma recv_deliver_next:
  "recv_deliver L msg f sh = (None, f', sh') \<Longrightarrow> rf_rd f' = rf_rd f \<and> rf_state f' = RBegin"
  using recv_deliver_frame(1,2) [of L msg f sh None f' sh'] by simp

lemma recv_iter_decreases:
  assumes "recv_iter L f sh = (None, f', sh')"
  shows "recv_measure f' < recv_measure f"
proof (cases "rf_state f")
  case RBegin
  with assms show ?thesis
    by (auto simp: recv_iter_def recv_begin_def recv_measure_def Let_def
        dest: poll_upstream_recv_ready
        split: if_splits prod.splits dns_upstream_proto.splits poll.splits result.splits option.splits)
next
  case (RTcpHeader got)
  with assms show ?thesis
    by (auto simp: recv_iter_def recv_header_def recv_measure_def Let_def dest: poll_upstream_recv_ready
        split: if_splits prod.splits poll.splits result.splits)
next
  case (RTcpBody len got)
  with assms show ?thesis
    by (auto simp: recv_iter_def recv_body_def recv_measure_def Let_def dest: poll_upstream_recv_ready
        split: if_splits prod.splits poll.splits result.splits option.splits)
next
  case RLock
  with assms show ?thesis
    by (auto simp: recv_iter_def recv_lock_def recv_measure_def Let_def dest: recv_deliver_next
        split: if_splits list.splits bool.splits option.splits)
qed

function recv_poll ::
    "('m, 'q, 'n, 'r) dns_lib \<Rightarrow> 'm recv_fut \<Rightarrow> shared \<Rightarrow> fut_out \<times> 'm recv_fut \<times> shared" where
  "recv_poll L f sh =
     (case recv_iter L f sh of
        (Some out, f', sh') \<Rightarrow> (out, f', sh')
      | (None, f', sh') \<Rightarrow> recv_poll L f' sh')"
  by pat_completeness auto
termination
  by (relation "measure (\<lambda>(L, f, sh). recv_measure f)") (auto dest: recv_iter_decreases [OF sym])

declare recv_poll.simps [simp del]

section \<open>Framing\<close>

text \<open>A reader of frames: two bytes of length, most significant first, then the message.\<close>

definition unframe :: "bytes \<Rightarrow> (bytes \<times> bytes) option" where
  "unframe bs =
     (case bs of
        a # b # rest \<Rightarrow>
          (let n = unat (u16_from_be_bytes [a, b]) in
           if length rest < n then None else Some (take n rest, drop n rest))
      | _ \<Rightarrow> None)"

definition frame_bytes :: "bytes \<Rightarrow> bytes" where
  "frame_bytes p = u16_to_be_bytes (of_nat (length p)) @ p"

lemma be_header:
  fixes n :: nat
  assumes "n \<le> 65535"
  shows "[of_nat (drop_bit 8 n), of_nat (and n 0xff)] = u16_to_be_bytes (of_nat n)"
proof -
  have "and n 0xff = take_bit 8 n" by (simp add: take_bit_eq_mask mask_eq_exp_minus_1)
  then have "(of_nat (and n 0xff) :: byte) = of_nat n" by (simp add: word_of_nat_eq_iff)
  moreover have "unat (of_nat n :: u16) = n" using assms by (simp add: unat_of_nat)
  ultimately show ?thesis by (simp add: u16_to_be_bytes_def be_bytes_2 drop_bit_eq_div)
qed

lemma frame_dns_tcp_ok: "length p \<le> 65535 \<Longrightarrow> frame_dns_tcp p = Ok (frame_bytes p)"
  using be_header [of "length p"] by (simp add: frame_dns_tcp_def Let_def frame_bytes_def)

lemma frame_dns_tcp_iff: "frame_dns_tcp p = Ok v \<longleftrightarrow> length p \<le> 65535 \<and> v = frame_bytes p"
  using frame_dns_tcp_ok [of p] by (cases "length p \<le> 65535") (auto simp: frame_dns_tcp_def Let_def)

lemma unframe_header:
  "length p \<le> 65535 \<Longrightarrow> unframe (u16_to_be_bytes (of_nat (length p)) @ p @ rest) = Some (p, rest)"
proof -
  assume "length p \<le> 65535"
  moreover obtain a b where ab: "u16_to_be_bytes (of_nat (length p)) = [a, b]"
    using be_bytes_2 by (simp add: u16_to_be_bytes_def)
  moreover have "u16_from_be_bytes [a, b] = of_nat (length p)"
    using u16_from_to_be [of "of_nat (length p)"] ab by simp
  ultimately show ?thesis by (simp add: unframe_def unat_of_nat)
qed

interpretation dns_frame: stream_codec "\<lambda>p. length p \<le> 65535" frame_bytes unframe
  by unfold_locales (simp add: frame_bytes_def unframe_header)

section \<open>Queries in flight\<close>

text \<open>The bytes a query is sent as under session identifier \<open>i\<close>; \<open>None\<close> when it cannot be encoded.\<close>

definition wire :: "('m, 'q, 'n, 'r) dns_lib \<Rightarrow> dns_upstream_proto \<Rightarrow> u16 \<Rightarrow> 'm \<Rightarrow> bytes option" where
  "wire L proto i m =
     (case to_vec L (set_id L i m) of
        None \<Rightarrow> None
      | Some payload \<Rightarrow>
        (case proto of
           Udp \<Rightarrow> Some payload
         | Tcp \<Rightarrow> if length payload \<le> 65535 then Some (frame_bytes payload) else None))"

definition session_of :: "('m, 'q, 'n, 'r) dns_lib \<Rightarrow> nat \<Rightarrow> u16 \<Rightarrow> udp_peer \<times> 'm \<Rightarrow> dns_session" where
  "session_of L now i pm =
     \<lparr>ds_peer = fst pm, ds_old_id = msg_id L (snd pm), ds_id = i, ds_time = now\<rparr>"

text \<open>The session table and the transmissions after a queue of queries, from identifier \<open>i\<close> on.\<close>

fun assign_sessions ::
    "('m, 'q, 'n, 'r) dns_lib \<Rightarrow> dns_upstream_proto \<Rightarrow> nat \<Rightarrow> u16 \<Rightarrow> (udp_peer \<times> 'm) list \<Rightarrow> sessions \<Rightarrow> sessions" where
  "assign_sessions L proto now i [] ss = ss"
| "assign_sessions L proto now i (pm # pms) ss =
     assign_sessions L proto now (i + 1) pms
       (if wire L proto i (snd pm) = None then ss else ss(i \<mapsto> session_of L now i pm))"

fun transmissions ::
    "('m, 'q, 'n, 'r) dns_lib \<Rightarrow> dns_upstream_proto \<Rightarrow> u16 \<Rightarrow> (udp_peer \<times> 'm) list \<Rightarrow> (socket_addr \<times> bytes) list" where
  "transmissions L proto i [] = []"
| "transmissions L proto i (pm # pms) =
     (case wire L proto i (snd pm) of None \<Rightarrow> [] | Some v \<Rightarrow> [(peer_dest (fst pm), v)])
     @ transmissions L proto (i + 1) pms"

lemma assign_sessions_other:
  "(\<And>k. k < length pms \<Longrightarrow> i + of_nat k \<noteq> x) \<Longrightarrow> assign_sessions L proto now i pms ss x = ss x"
proof (induction pms arbitrary: i ss)
  case (Cons pm pms)
  have "i + 1 + of_nat k \<noteq> x" if "k < length pms" for k
    using Cons.prems [of "Suc k"] that by (simp add: add.assoc)
  moreover have "i \<noteq> x" using Cons.prems [of 0] by simp
  ultimately show ?case using Cons.IH by simp
qed simp

lemma of_nat_u16_inject:
  "j < 65536 \<Longrightarrow> k < 65536 \<Longrightarrow> (of_nat j :: u16) = of_nat k \<longleftrightarrow> j = k"
  by (simp add: word_of_nat_eq_iff take_bit_nat_eq_self)

lemma assign_sessions_nth:
  "j < length pms \<Longrightarrow> length pms \<le> 65536 \<Longrightarrow> wire L proto (i + of_nat j) (snd (pms ! j)) \<noteq> None \<Longrightarrow>
   assign_sessions L proto now i pms ss (i + of_nat j) = Some (session_of L now (i + of_nat j) (pms ! j))"
proof (induction pms arbitrary: i j ss)
  case (Cons pm pms)
  show ?case
  proof (cases j)
    case 0
    have "i + 1 + of_nat k \<noteq> i" if "k < length pms" for k
    proof -
      have "(of_nat (Suc k) :: u16) \<noteq> of_nat 0"
        using that Cons.prems(2) by (subst of_nat_u16_inject) auto
      then show ?thesis by (simp add: add.assoc)
    qed
    then show ?thesis using assign_sessions_other [of pms "i + 1" i L proto now] 0 Cons.prems by auto
  next
    case (Suc k)
    then show ?thesis using Cons.IH [of k "i + 1"] Cons.prems by (simp add: add.assoc)
  qed
qed simp

definition take_all :: "bytes \<Rightarrow> nat io_result poll" where
  "take_all bs = Ready (Ok (length bs))"

lemma send_poll_step: "send_iter L now f sh = (None, f', sh') \<Longrightarrow> send_poll L now f sh = send_poll L now f' sh'"
  by (subst send_poll.simps) simp

text \<open>One query through the loop, when the socket takes it whole and the lock is free.\<close>

lemma send_poll_one:
  assumes "sf_state f = SBegin" "sf_sendn f = 0" "sf_rx f = pm # pms" "wire L (sf_proto f) (sh_id sh) (snd pm) = Some v"
    and "sf_wr f = take_all # ws" "sf_lock f = True # ls"
  shows "send_poll L now f sh = send_poll L now
     (f\<lparr>sf_rx := pms, sf_session := None, sf_wr := ws, sf_lock := ls,
        sf_sent := sf_sent f @ [(peer_dest (fst pm), v)]\<rparr>)
     (sh\<lparr>sh_id := sh_id sh + 1, sh_sessions := (sh_sessions sh)(sh_id sh \<mapsto> session_of L now (sh_id sh) pm)\<rparr>)"
proof -
  obtain p m where pm: "pm = (p, m)" by fastforce
  let ?sess = "session_of L now (sh_id sh) pm"
  let ?sh1 = "sh\<lparr>sh_id := sh_id sh + 1\<rparr>"
  let ?f1 = "f\<lparr>sf_rx := pms, sf_session := Some ?sess, sf_state := SSend v\<rparr>"
  let ?f2 = "?f1\<lparr>sf_wr := ws, sf_sent := sf_sent f @ [(peer_dest p, v)], sf_sendn := length v, sf_state := SLock\<rparr>"
  have 1: "send_iter L now f sh = (None, ?f1, ?sh1)"
    using assms(1-4) by (auto simp: send_iter_def send_begin_def pm session_of_def wire_def Let_def
        frame_dns_tcp_ok split: option.splits dns_upstream_proto.splits if_splits)
  have 2: "send_iter L now ?f1 ?sh1 = (None, ?f2, ?sh1)"
    using assms(2,5) by (simp add: send_iter_def send_send_def poll_upstream_send_def take_all_def
        Let_def pm session_of_def)
  have 3: "send_iter L now ?f2 ?sh1 = (None,
      f\<lparr>sf_rx := pms, sf_session := None, sf_wr := ws, sf_lock := ls, sf_sent := sf_sent f @ [(peer_dest p, v)]\<rparr>,
      sh\<lparr>sh_id := sh_id sh + 1, sh_sessions := (sh_sessions sh)(sh_id sh \<mapsto> ?sess)\<rparr>)"
    using assms(1,2,6) by (simp add: send_iter_def send_lock_def session_of_def)
  show ?thesis
    unfolding send_poll_step [OF 1] send_poll_step [OF 2] send_poll_step [OF 3] by (simp add: pm)
qed

lemma send_poll_skip:
  assumes "sf_state f = SBegin" "sf_rx f = pm # pms" "wire L (sf_proto f) (sh_id sh) (snd pm) = None"
  shows "send_poll L now f sh = send_poll L now
     (f\<lparr>sf_rx := pms, sf_session := Some (session_of L now (sh_id sh) pm)\<rparr>) (sh\<lparr>sh_id := sh_id sh + 1\<rparr>)"
proof -
  have "send_iter L now f sh =
      (None, f\<lparr>sf_rx := pms, sf_session := Some (session_of L now (sh_id sh) pm)\<rparr>, sh\<lparr>sh_id := sh_id sh + 1\<rparr>)"
    using assms by (cases pm) (auto simp: send_iter_def send_begin_def session_of_def wire_def Let_def
        frame_dns_tcp_iff split: option.splits dns_upstream_proto.splits if_splits result.splits)
  then show ?thesis by (rule send_poll_step)
qed

lemma send_poll_queue:
  assumes "sf_state f = SBegin" "sf_sendn f = 0" "\<not> sf_rx_closed f"
    and "sf_wr f = replicate k take_all" "sf_lock f = replicate k True" "length (sf_rx f) \<le> k"
  shows "\<exists>f' sh'. send_poll L now f sh = (Pending, f', sh') \<and> sf_rx f' = [] \<and> sf_state f' = SBegin \<and> sf_armed f'
   \<and> sf_sent f' = sf_sent f @ transmissions L (sf_proto f) (sh_id sh) (sf_rx f)
   \<and> sh_sessions sh' = assign_sessions L (sf_proto f) now (sh_id sh) (sf_rx f) (sh_sessions sh)
   \<and> sh_id sh' = sh_id sh + of_nat (length (sf_rx f))"
  using assms
proof (induction "sf_rx f" arbitrary: f sh k)
  case Nil
  then show ?case by (simp add: send_poll.simps send_iter_def send_begin_def)
next
  case (Cons pm pms)
  then obtain k' where k: "k = Suc k'" by (cases k) (auto simp: Cons(2) [symmetric])
  show ?case
  proof (cases "wire L (sf_proto f) (sh_id sh) (snd pm)")
    case None
    let ?f = "f\<lparr>sf_rx := pms, sf_session := Some (session_of L now (sh_id sh) pm)\<rparr>"
    have "send_poll L now f sh = send_poll L now ?f (sh\<lparr>sh_id := sh_id sh + 1\<rparr>)"
      by (rule send_poll_skip) (use Cons None in auto)
    with Cons(1) [of ?f k "sh\<lparr>sh_id := sh_id sh + 1\<rparr>"] Cons(3-) Cons(2) [symmetric] None show ?thesis
      by (simp add: add.assoc)
  next
    case (Some v)
    let ?f = "f\<lparr>sf_rx := pms, sf_session := None, sf_wr := replicate k' take_all, sf_lock := replicate k' True,
        sf_sent := sf_sent f @ [(peer_dest (fst pm), v)]\<rparr>"
    let ?sh = "sh\<lparr>sh_id := sh_id sh + 1,
        sh_sessions := (sh_sessions sh)(sh_id sh \<mapsto> session_of L now (sh_id sh) pm)\<rparr>"
    have "send_poll L now f sh = send_poll L now ?f ?sh"
      by (rule send_poll_one) (use Cons Some k in auto)
    with Cons(1) [of ?f k' ?sh] Cons(3-) Cons(2) [symmetric] Some k show ?thesis
      by (simp add: add.assoc)
  qed
qed

lemma recv_poll_step: "recv_iter L f sh = (None, f', sh') \<Longrightarrow> recv_poll L f sh = recv_poll L f' sh'"
  by (subst recv_poll.simps) simp

lemma recv_poll_stop: "recv_iter L f sh = (Some out, f', sh') \<Longrightarrow> recv_poll L f sh = (out, f', sh')"
  by (subst recv_poll.simps) simp

text \<open>What a reply does to the tunnel and the sessions, once it is decoded.\<close>

definition reply_effect ::
    "('m, 'q, 'n, 'r) dns_lib \<Rightarrow> 'm \<Rightarrow> (bytes \<times> socket_addr \<times> socket_addr) list \<times> sessions
     \<Rightarrow> (bytes \<times> socket_addr \<times> socket_addr) list \<times> sessions" where
  "reply_effect L m ts =
     (case ts of (tun, ss) \<Rightarrow>
      (case ss (msg_id L m) of
         None \<Rightarrow> (tun, ss)
       | Some s \<Rightarrow>
         (case to_vec L (set_id L (ds_old_id s) m) of
            None \<Rightarrow> (tun, ss(msg_id L m := None))
          | Some data \<Rightarrow>
            (tun @ [(data, peer_dest (ds_peer s), peer_src (ds_peer s))], ss(msg_id L m := None)))))"

lemma recv_deliver_effect:
  assumes "rf_tun_err f = []"
  shows "\<exists>f' sh'. recv_deliver L m f sh = (None, f', sh') \<and> rf_state f' = RBegin \<and> rf_tun_err f' = []
    \<and> (rf_tun f', sh_sessions sh') = reply_effect L m (rf_tun f, sh_sessions sh)
    \<and> rf_rd f' = rf_rd f \<and> rf_lock f' = rf_lock f \<and> rf_msg f' = rf_msg f \<and> rf_buf f' = rf_buf f
    \<and> rf_read f' = rf_read f \<and> rf_proto f' = rf_proto f \<and> rf_running f' = rf_running f
    \<and> sh_id sh' = sh_id sh \<and> rf_armed f' = rf_armed f"
  using assms
  by (cases "sh_sessions sh (msg_id L m)")
    (auto simp: recv_deliver_def reply_effect_def tun_send_def Let_def split: option.split)

lemma recv_poll_udp_one:
  assumes "from_vec L reply = Some m" "length reply \<le> 1500"
  shows "\<exists>f' sh'. recv_poll L (recv_fut_new Udp [\<lambda>n. Ready (Ok reply)] [True]) sh = (Pending, f', sh')
    \<and> (rf_tun f', sh_sessions sh') = reply_effect L m ([], sh_sessions sh) \<and> sh_id sh' = sh_id sh"
proof -
  let ?f = "recv_fut_new Udp [\<lambda>n. Ready (Ok reply)] [True] :: 'a recv_fut"
  let ?f1 = "?f\<lparr>rf_cancel_waker := True, rf_rd := [], rf_read := reply,
      rf_buf := reply @ drop (length reply) (rf_buf ?f), rf_msg := Some m, rf_state := RLock\<rparr>"
  have 1: "recv_iter L ?f sh = (None, ?f1, sh)"
    using assms by (simp add: recv_iter_def recv_begin_def recv_fut_new_def poll_upstream_recv_def Let_def)
  obtain f2 sh2 where d: "recv_deliver L m (?f1\<lparr>rf_lock := [], rf_msg := None\<rparr>) sh = (None, f2, sh2)"
    and eff: "(rf_tun f2, sh_sessions sh2) = reply_effect L m ([], sh_sessions sh)"
    and f2: "rf_state f2 = RBegin" "rf_rd f2 = []" "rf_proto f2 = Udp" "rf_running f2" "sh_id sh2 = sh_id sh"
    using recv_deliver_effect [of "?f1\<lparr>rf_lock := [], rf_msg := None\<rparr>" L m sh]
    by (auto simp: recv_fut_new_def)
  have 2: "recv_iter L ?f1 sh = (None, f2, sh2)"
    using d by (simp add: recv_iter_def recv_lock_def recv_fut_new_def)
  have 3: "recv_iter L f2 sh2 = (Some Pending, f2\<lparr>rf_cancel_waker := True, rf_armed := True\<rparr>, sh2)"
    using f2 by (simp add: recv_iter_def recv_begin_def poll_upstream_recv_def)
  show ?thesis
    unfolding recv_poll_step [OF 1] recv_poll_step [OF 2] recv_poll_stop [OF 3] using eff f2(5) by simp
qed

section \<open>Properties of the sessions\<close>


definition sample_peer :: "byte \<Rightarrow> udp_peer" where
  "sample_peer n = \<lparr>peer_src = V4 \<lparr>v4_ip = Ipv4Addr 10 0 0 n, v4_port = 4000\<rparr>,
     peer_dest = V4 \<lparr>v4_ip = Ipv4Addr 8 8 8 8, v4_port = 53\<rparr>\<rparr>"

lemma sample_wire: "wire sample_lib Udp i m = Some (u16_to_be_bytes i @ [of_nat (length (v_answers m))])"
  by (simp add: wire_def sample_lib_def sample_to_vec_def)




section \<open>Wakers of the two futures\<close>

text \<open>
  A partial TCP write stalls the sending future: when the socket takes some but not all bytes of
  a message, the poll returns \<open>Pending\<close> although no waker was left with the socket, the channel or
  the lock, and the rest of the message stays unsent.
\<close>

theorem send_partial_write_no_waker:
  assumes "sf_state f = SSend msg" "sf_session f = Some sess" "sf_wr f = w # ws" "sf_sendn f \<le> length msg"
    and "w (drop (sf_sendn f) msg) = Ready (Ok n)" "sf_sendn f + n < length msg"
    and "send_poll L now f sh = (out, f', sh')"
  shows "out = Pending \<and> sf_armed f' = sf_armed f \<and> sf_state f' = SSend msg \<and> sf_sendn f' = sf_sendn f + n"
proof -
  have "send_iter L now f sh = (Some Pending, f\<lparr>sf_wr := ws,
      sf_sent := sf_sent f @ [(peer_dest (ds_peer sess), take n (drop (sf_sendn f) msg))], sf_sendn := sf_sendn f + n\<rparr>, sh)"
    using assms(1-6) by (simp add: send_iter_def send_send_def poll_upstream_send_def Let_def)
  then show ?thesis using assms(1,7) by (auto simp: send_poll.simps)
qed

definition stalled_send :: "sample_msg send_fut" where
  "stalled_send = (send_fut_new Tcp [] False [\<lambda>bs. Ready (Ok 1)] [True])\<lparr>sf_state := SSend [0, 1, 9],
     sf_session := Some \<lparr>ds_peer = sample_peer 1, ds_old_id = 3, ds_id = 7, ds_time = 0\<rparr>\<rparr>"

theorem send_partial_write_no_waker_witness:
  "\<exists>f'. fst (snd (send_poll sample_lib 0 stalled_send \<lparr>sh_id = 8, sh_sessions = Map.empty\<rparr>)) = f'
     \<and> \<not> sf_armed f' \<and> sf_sendn f' = 1"
proof -
  obtain out f' sh' where s: "send_poll sample_lib 0 stalled_send \<lparr>sh_id = 8, sh_sessions = Map.empty\<rparr> =
      (out, f', sh')" by (metis prod_cases3)
  from send_partial_write_no_waker [where f = stalled_send and n = 1, OF _ _ _ _ _ _ s] s show ?thesis
    by (simp add: stalled_send_def send_fut_new_def)
qed

text \<open>
  C27: a TCP reply that arrives in pieces stalls the receiving future: when a read gives some but not
  all bytes of the body that are still missing, the poll returns \<open>Pending\<close> although no waker was left
  with the socket or the lock.
\<close>

theorem recv_partial_read_no_waker:
  assumes "rf_running f" "rf_proto f = Tcp" "rf_state f = RTcpBody len got" "len \<le> length (rf_buf f)"
    and "rf_rd f = r # rs" "r (len - got) = Ready (Ok bs)" "0 < length bs" "got + length bs < len"
    and "recv_poll L f sh = (out, f', sh')"
  shows "out = Pending \<and> rf_armed f' = rf_armed f \<and> rf_state f' = RTcpBody len (got + length bs)"
proof -
  have "\<exists>f1. recv_iter L f sh = (Some Pending, f1, sh) \<and> rf_armed f1 = rf_armed f
      \<and> rf_state f1 = RTcpBody len (got + length bs)"
    using assms(1-8) by (simp add: recv_iter_def recv_body_def poll_upstream_recv_def Let_def)
  then show ?thesis using assms(9) by (auto simp: recv_poll.simps)
qed

definition stalled_recv :: "sample_msg recv_fut" where
  "stalled_recv = (recv_fut_new Tcp [\<lambda>n. Ready (Ok [0, 7])] [True])\<lparr>rf_state := RTcpBody 5 0\<rparr>"

theorem recv_partial_read_no_waker_witness:
  "\<exists>f'. fst (snd (recv_poll sample_lib stalled_recv \<lparr>sh_id = 8, sh_sessions = Map.empty\<rparr>)) = f'
     \<and> \<not> rf_armed f' \<and> rf_state f' = RTcpBody 5 2"
proof -
  obtain out f' sh' where s: "recv_poll sample_lib stalled_recv \<lparr>sh_id = 8, sh_sessions = Map.empty\<rparr> =
      (out, f', sh')" by (metis prod_cases3)
  from recv_partial_read_no_waker [where f = stalled_recv and bs = "[0, 7]", OF _ _ _ _ _ _ _ _ s] s show ?thesis
    by (simp add: stalled_recv_def recv_fut_new_def)
qed

section \<open>Reassembly of TCP replies\<close>

lemma unframe_shorter: "unframe bs = Some (p, rest) \<Longrightarrow> length rest < length bs"
  by (auto simp: unframe_def Let_def split: list.splits if_splits)

text \<open>The specification: cut the byte stream into messages, as far as they are complete.\<close>

function deframe :: "bytes \<Rightarrow> bytes list \<times> bytes" where
  "deframe bs =
     (case unframe bs of
        None \<Rightarrow> ([], bs)
      | Some (p, rest) \<Rightarrow> (case deframe rest of (ps, r) \<Rightarrow> (p # ps, r)))"
  by pat_completeness auto
termination
  by (relation "measure length") (auto dest: unframe_shorter)

declare deframe.simps [simp del]

lemma deframe_concat:
  "\<forall>b \<in> set bodies. length b \<le> 65535 \<Longrightarrow> unframe partial = None \<Longrightarrow>
   deframe (concat (map frame_bytes bodies) @ partial) = (bodies, partial)"
proof (induction bodies)
  case Nil
  then show ?case by (simp add: deframe.simps)
next
  case (Cons b bodies)
  then show ?case using dns_frame.dec_enc [of b] by (subst deframe.simps) simp
qed

text \<open>What a complete message does: an empty or undecodable one is skipped.\<close>

definition deliver_body ::
    "('m, 'q, 'n, 'r) dns_lib \<Rightarrow> (bytes \<times> socket_addr \<times> socket_addr) list \<times> sessions \<Rightarrow> bytes
     \<Rightarrow> (bytes \<times> socket_addr \<times> socket_addr) list \<times> sessions" where
  "deliver_body L ts body =
     (if body = [] then ts
      else case from_vec L body of None \<Rightarrow> ts | Some m \<Rightarrow> reply_effect L m ts)"

definition read_contract :: "(nat \<Rightarrow> bytes io_result poll) list \<Rightarrow> bool" where
  "read_contract rd \<longleftrightarrow> (\<forall>r \<in> set rd. \<forall>n.
     (\<forall>bs. r n = Ready (Ok bs) \<longrightarrow> length bs \<le> n) \<and> (\<forall>m. r n \<noteq> Ready (Panic m)))"

text \<open>How the state of the future stands for the bytes read since the last complete message.\<close>

fun partial_of :: "recv_state \<Rightarrow> bytes \<Rightarrow> bytes" where
  "partial_of RBegin buf = []"
| "partial_of (RTcpHeader got) buf = take got buf"
| "partial_of (RTcpBody len got) buf = u16_to_be_bytes (of_nat len) @ take got buf"
| "partial_of RLock buf = []"

fun state_fits :: "recv_state \<Rightarrow> bytes \<Rightarrow> bool" where
  "state_fits (RTcpHeader got) buf \<longleftrightarrow> got < 2"
| "state_fits (RTcpBody len got) buf \<longleftrightarrow> got < len \<and> len \<le> 65535 \<and> len \<le> length buf"
| "state_fits _ buf \<longleftrightarrow> True"

definition tcp_rel ::
    "('m, 'q, 'n, 'r) dns_lib \<Rightarrow> (bytes \<times> socket_addr \<times> socket_addr) list \<times> sessions
     \<Rightarrow> bytes list \<Rightarrow> 'm recv_fut \<Rightarrow> shared \<Rightarrow> bool" where
  "tcp_rel L ts0 bodies f sh \<longleftrightarrow>
     rf_proto f = Tcp \<and> 2 \<le> length (rf_buf f) \<and> rf_tun_err f = [] \<and> read_contract (rf_rd f)
   \<and> state_fits (rf_state f) (rf_buf f) \<and> (\<forall>b \<in> set bodies. length b \<le> 65535)
   \<and> rf_read f = concat (map frame_bytes bodies) @ partial_of (rf_state f) (rf_buf f)
   \<and> (if rf_state f = RLock
      then bodies \<noteq> [] \<and> last bodies \<noteq> [] \<and> (\<exists>m. rf_msg f = Some m \<and> from_vec L (last bodies) = Some m)
        \<and> (rf_tun f, sh_sessions sh) = foldl (deliver_body L) ts0 (butlast bodies)
      else (rf_tun f, sh_sessions sh) = foldl (deliver_body L) ts0 bodies)"

lemma unframe_partial:
  "state_fits st buf \<Longrightarrow> unframe (partial_of st buf) = None"
proof (induction st buf rule: partial_of.induct)
  case (2 got buf)
  then show ?case by (auto simp: unframe_def split: list.split dest: arg_cong [where f = length])
next
  case (3 len got buf)
  obtain a b where ab: "u16_to_be_bytes (of_nat len) = [a, b]"
    using be_bytes_2 by (simp add: u16_to_be_bytes_def)
  moreover have "u16_from_be_bytes [a, b] = of_nat len"
    using u16_from_to_be [of "of_nat len"] ab by simp
  ultimately show ?case using 3 by (simp add: unframe_def unat_of_nat)
qed (simp_all add: unframe_def)

lemma overwrite_take:
  "i + length bs \<le> length buf \<Longrightarrow>
   take (i + length bs) (take i buf @ bs @ drop (i + length bs) buf) = take i buf @ bs
   \<and> length (take i buf @ bs @ drop (i + length bs) buf) = length buf"
  by (simp add: min_absorb2)

lemma read_contractD:
  assumes "poll_upstream_recv i j f = (q, f1)" "read_contract (rf_rd f)"
  shows "read_contract (rf_rd f1)" "\<And>m. q \<noteq> Ready (Panic m)" "\<And>bs. q = Ready (Ok bs) \<Longrightarrow> length bs \<le> j - i"
  using poll_upstream_recvD(14,15) [OF assms(1)] assms(2) unfolding read_contract_def by blast+

lemma tcp_rel_cancel_waker [simp]:
  "tcp_rel L ts0 bodies (f\<lparr>rf_cancel_waker := b\<rparr>) sh = tcp_rel L ts0 bodies f sh"
  by (simp add: tcp_rel_def)

lemma tcp_rel_armed [simp]: "tcp_rel L ts0 bodies (f\<lparr>rf_armed := b\<rparr>) sh = tcp_rel L ts0 bodies f sh"
  by (simp add: tcp_rel_def)

text \<open>A read that gives nothing, or fails, keeps the relation.\<close>

lemma tcp_rel_no_bytes:
  assumes "poll_upstream_recv i j f = (q, f1)" "tcp_rel L ts0 bodies f sh" "\<And>bs. q = Ready (Ok bs) \<Longrightarrow> bs = []"
  shows "tcp_rel L ts0 bodies f1 sh"
proof -
  have "rf_buf f1 = rf_buf f" "rf_read f1 = rf_read f"
    using poll_upstream_recvD(11,13) [OF assms(1)] assms(3) by (auto split: poll.splits result.splits)
  moreover have "read_contract (rf_rd f1)"
    using read_contractD(1) [OF assms(1)] assms(2) by (simp add: tcp_rel_def)
  ultimately show ?thesis
    using assms(2) poll_upstream_recvD(1-7) [OF assms(1)] by (simp add: tcp_rel_def)
qed

lemma tcp_read_bytes:
  assumes "poll_upstream_recv i j f = (Ready (Ok bs), f1)" "tcp_rel L ts0 bodies f sh"
    and "i \<le> j" "j \<le> length (rf_buf f)"
  shows "length bs \<le> j - i" "take (i + length bs) (rf_buf f1) = take i (rf_buf f) @ bs"
    "length (rf_buf f1) = length (rf_buf f)" "rf_read f1 = rf_read f @ bs"
    "rf_proto f1 = Tcp" "rf_tun_err f1 = []" "read_contract (rf_rd f1)" "rf_tun f1 = rf_tun f"
proof -
  have rc: "read_contract (rf_rd f)" using assms(2) by (simp add: tcp_rel_def)
  show l: "length bs \<le> j - i" using read_contractD(3) [OF assms(1) rc] by simp
  then show "take (i + length bs) (rf_buf f1) = take i (rf_buf f) @ bs"
    "length (rf_buf f1) = length (rf_buf f)"
    using overwrite_take [of i bs "rf_buf f"] poll_upstream_recvD(13) [OF assms(1)] assms(3,4) by auto
  show "rf_read f1 = rf_read f @ bs" using poll_upstream_recvD(11) [OF assms(1)] by simp
  show "rf_proto f1 = Tcp" "rf_tun_err f1 = []" "rf_tun f1 = rf_tun f"
    using poll_upstream_recvD(2,6,7) [OF assms(1)] assms(2) by (simp_all add: tcp_rel_def)
  show "read_contract (rf_rd f1)" using read_contractD(1) [OF assms(1) rc] .
qed

lemma two_bytes: "2 \<le> length buf \<Longrightarrow> [buf ! 0, buf ! 1] = take 2 buf"
  by (cases buf; cases "tl buf") auto

lemma tcp_header:
  assumes "recv_header got f = (out, f')" "tcp_rel L ts0 bodies f sh" "rf_state f = RTcpHeader got"
  shows "(\<exists>bodies'. tcp_rel L ts0 bodies' f' sh) \<and> (\<forall>m. out \<noteq> Some (Ready (Panic m)))"
proof -
  have inv: "rf_proto f = Tcp" "got < 2" "2 \<le> length (rf_buf f)" "read_contract (rf_rd f)"
    and rd: "rf_read f = concat (map frame_bytes bodies) @ take got (rf_buf f)"
    and eff: "(rf_tun f, sh_sessions sh) = foldl (deliver_body L) ts0 bodies"
    and small: "\<forall>b \<in> set bodies. length b \<le> 65535"
    using assms(2,3) by (simp_all add: tcp_rel_def)
  obtain q f1 where p: "poll_upstream_recv got 2 f = (q, f1)" by fastforce
  show ?thesis
  proof (cases "\<exists>bs. q = Ready (Ok bs) \<and> bs \<noteq> []")
    case False
    with tcp_rel_no_bytes [OF p assms(2)] have "tcp_rel L ts0 bodies f1 sh" by blast
    moreover have "f' = f1 \<and> (\<forall>m. out \<noteq> Some (Ready (Panic m)))"
      using assms(1) p inv False read_contractD(2) [OF p inv(4)]
      by (auto simp: recv_header_def recv_io_error_def split: poll.splits result.splits if_splits)
    ultimately show ?thesis by blast
  next
    case True
    then obtain bs where q: "q = Ready (Ok bs)" "bs \<noteq> []" by blast
    note r = tcp_read_bytes [OF p [unfolded q] assms(2) less_imp_le [OF inv(2)] inv(3)]
    let ?len = "unat (u16_from_be_bytes [rf_buf f1 ! 0, rf_buf f1 ! 1])"
    show ?thesis
    proof (cases "got + length bs < 2")
      case True
      then have "f' = f1\<lparr>rf_state := RTcpHeader (got + length bs)\<rparr>" "out = Some Pending"
        using assms(1) p q inv by (simp_all add: recv_header_def)
      moreover have "tcp_rel L ts0 bodies (f1\<lparr>rf_state := RTcpHeader (got + length bs)\<rparr>) sh"
        using r True rd eff small inv(3) by (simp add: tcp_rel_def)
      ultimately show ?thesis by auto
    next
      case False
      then have g2: "got + length bs = 2" using r(1) inv(2) by linarith
      have hdr: "take 2 (rf_buf f1) = take got (rf_buf f) @ bs" using r(2) g2 by simp
      have "[rf_buf f1 ! 0, rf_buf f1 ! 1] = take got (rf_buf f) @ bs"
        using two_bytes [of "rf_buf f1"] r(3) inv(3) hdr by simp
      then have enc: "u16_to_be_bytes (of_nat ?len) = take got (rf_buf f) @ bs"
        using u16_to_from_be [of "take got (rf_buf f) @ bs"] g2 inv by simp
      have enc': "u16_to_be_bytes (u16_from_be_bytes (take got (rf_buf f) @ bs)) = take got (rf_buf f) @ bs"
        using u16_to_from_be [of "take got (rf_buf f) @ bs"] g2 inv by simp
      have lim: "?len \<le> 65535" using be_nat_less [of "[rf_buf f1 ! 0, rf_buf f1 ! 1]"] by (simp add: unat_u16_from_be)
      show ?thesis
      proof (cases "?len = 0")
        case True
        have z: "take got (rf_buf f) @ bs = u16_to_be_bytes 0" using enc unfolding True by simp
        from True have "f' = f1\<lparr>rf_state := RBegin\<rparr>" "out = None"
          using assms(1) p q inv g2 by (simp_all add: recv_header_def Let_def)
        moreover have "tcp_rel L ts0 (bodies @ [[]]) (f1\<lparr>rf_state := RBegin\<rparr>) sh"
          using r rd eff small inv(3) z
          by (simp add: tcp_rel_def frame_bytes_def deliver_body_def)
        ultimately show ?thesis by auto
      next
        case False
        let ?buf = "if length (rf_buf f1) < ?len then rf_buf f1 @ replicate (?len - length (rf_buf f1)) 0 else rf_buf f1"
        have "f' = f1\<lparr>rf_buf := ?buf, rf_state := RTcpBody ?len 0\<rparr>" "out = None"
          using assms(1) p q inv g2 False by (simp_all add: recv_header_def Let_def del: One_nat_def split del: if_split)
        moreover have "tcp_rel L ts0 bodies (f1\<lparr>rf_buf := ?buf, rf_state := RTcpBody ?len 0\<rparr>) sh"
          using r rd eff small inv(3) enc enc' lim False by (simp add: tcp_rel_def)
        ultimately show ?thesis by auto
      qed
    qed
  qed
qed

lemma tcp_body:
  assumes "recv_body L len got f = (out, f')" "tcp_rel L ts0 bodies f sh" "rf_state f = RTcpBody len got"
  shows "(\<exists>bodies'. tcp_rel L ts0 bodies' f' sh) \<and> (\<forall>m. out \<noteq> Some (Ready (Panic m)))"
proof -
  have inv: "rf_proto f = Tcp" "got < len" "len \<le> length (rf_buf f)" "read_contract (rf_rd f)" "len \<le> 65535"
      "2 \<le> length (rf_buf f)"
    and rd: "rf_read f = concat (map frame_bytes bodies) @ u16_to_be_bytes (of_nat len) @ take got (rf_buf f)"
    and eff: "(rf_tun f, sh_sessions sh) = foldl (deliver_body L) ts0 bodies"
    and small: "\<forall>b \<in> set bodies. length b \<le> 65535"
    using assms(2,3) by (simp_all add: tcp_rel_def)
  obtain q f1 where p: "poll_upstream_recv got len f = (q, f1)" by fastforce
  show ?thesis
  proof (cases "\<exists>bs. q = Ready (Ok bs) \<and> bs \<noteq> []")
    case False
    with tcp_rel_no_bytes [OF p assms(2)] have "tcp_rel L ts0 bodies f1 sh" by blast
    moreover have "f' = f1 \<and> (\<forall>m. out \<noteq> Some (Ready (Panic m)))"
      using assms(1) p inv False read_contractD(2) [OF p inv(4)]
      by (auto simp: recv_body_def recv_io_error_def split: poll.splits result.splits if_splits)
    ultimately show ?thesis by blast
  next
    case True
    then obtain bs where q: "q = Ready (Ok bs)" "bs \<noteq> []" by blast
    note r = tcp_read_bytes [OF p [unfolded q] assms(2) less_imp_le [OF inv(2)] inv(3)]
    show ?thesis
    proof (cases "got + length bs < len")
      case True
      then have "f' = f1\<lparr>rf_state := RTcpBody len (got + length bs)\<rparr>" "out = Some Pending"
        using assms(1) p q inv by (simp_all add: recv_body_def)
      moreover have "tcp_rel L ts0 bodies (f1\<lparr>rf_state := RTcpBody len (got + length bs)\<rparr>) sh"
        using r True rd eff small inv by (simp add: tcp_rel_def)
      ultimately show ?thesis by auto
    next
      case False
      then have g2: "got + length bs = len" using r(1) inv(2) by linarith
      let ?b = "take len (rf_buf f1)"
      have b: "?b = take got (rf_buf f) @ bs" "length ?b = len" using r(2,3) g2 inv(3) by auto
      have all: "rf_read f1 = concat (map frame_bytes (bodies @ [?b]))"
        using r(4) rd b by (simp add: frame_bytes_def)
      have "?b \<noteq> []" using b(2) inv(2) by auto
      show ?thesis
      proof (cases "from_vec L ?b")
        case None
        then have "f' = f1\<lparr>rf_state := RBegin\<rparr>" "out = None"
          using assms(1) p q inv g2 by (simp_all add: recv_body_def Let_def)
        moreover have "tcp_rel L ts0 (bodies @ [?b]) (f1\<lparr>rf_state := RBegin\<rparr>) sh"
          using r eff small inv b(2) all None by (simp add: tcp_rel_def deliver_body_def)
        ultimately show ?thesis by auto
      next
        case (Some m)
        then have "f' = f1\<lparr>rf_msg := Some m, rf_state := RLock\<rparr>" "out = None"
          using assms(1) p q inv g2 by (simp_all add: recv_body_def Let_def)
        moreover have "tcp_rel L ts0 (bodies @ [?b]) (f1\<lparr>rf_msg := Some m, rf_state := RLock\<rparr>) sh"
          using r eff small inv b(2) all Some \<open>?b \<noteq> []\<close> by (simp add: tcp_rel_def)
        ultimately show ?thesis by auto
      qed
    qed
  qed
qed

lemma tcp_lock:
  assumes "recv_lock L f sh = (out, f', sh')" "tcp_rel L ts0 bodies f sh" "rf_state f = RLock"
  shows "(\<exists>bodies'. tcp_rel L ts0 bodies' f' sh') \<and> (\<forall>m. out \<noteq> Some (Ready (Panic m)))"
proof (cases "\<exists>ls. rf_lock f = True # ls")
  case False
  have lock: "tcp_rel L ts0 bodies (f\<lparr>rf_lock := ls\<rparr>) sh" for ls
    using assms(2) by (simp add: tcp_rel_def)
  from False assms(1,2) lock show ?thesis
    by (auto simp: recv_lock_def intro: exI [of _ bodies] split: list.splits bool.splits)
next
  case True
  then obtain ls where ls: "rf_lock f = True # ls" by blast
  obtain m where m: "rf_msg f = Some m" "from_vec L (last bodies) = Some m"
    and b: "bodies \<noteq> []" "last bodies \<noteq> []"
    and eff: "(rf_tun f, sh_sessions sh) = foldl (deliver_body L) ts0 (butlast bodies)"
    using assms(2,3) by (auto simp: tcp_rel_def)
  let ?f = "f\<lparr>rf_lock := ls, rf_msg := None\<rparr>"
  have d: "recv_deliver L m ?f sh = (out, f', sh')" using assms(1) ls m by (simp add: recv_lock_def)
  have te: "rf_tun_err ?f = []" using assms(2) by (simp add: tcp_rel_def)
  from recv_deliver_effect [OF te, of L m sh] d have o: "out = None" "rf_state f' = RBegin" "rf_tun_err f' = []"
    "(rf_tun f', sh_sessions sh') = reply_effect L m (rf_tun f, sh_sessions sh)" "rf_rd f' = rf_rd f"
    "rf_buf f' = rf_buf f" "rf_read f' = rf_read f" "rf_proto f' = rf_proto f"
    by auto
  have "foldl (deliver_body L) ts0 bodies = deliver_body L (foldl (deliver_body L) ts0 (butlast bodies)) (last bodies)"
    using b(1) by (metis append_butlast_last_id foldl.simps foldl_append)
  also have "\<dots> = reply_effect L m (rf_tun f, sh_sessions sh)"
    using b(2) m(2) by (simp add: deliver_body_def eff)
  finally have "tcp_rel L ts0 bodies f' sh'"
    using assms(2,3) o by (simp add: tcp_rel_def)
  with o(1) show ?thesis by auto
qed

lemma tcp_iter:
  assumes "recv_iter L f sh = (out, f', sh')" "tcp_rel L ts0 bodies f sh"
  shows "(\<exists>bodies'. tcp_rel L ts0 bodies' f' sh') \<and> (\<forall>m. out \<noteq> Some (Ready (Panic m)))"
proof (cases "rf_running f")
  case False
  with assms show ?thesis by (auto simp: recv_iter_def)
next
  case True
  let ?f0 = "f\<lparr>rf_cancel_waker := True\<rparr>"
  have rel: "tcp_rel L ts0 bodies ?f0 sh" using assms(2) by simp
  show ?thesis
  proof (cases "rf_state f")
    case RBegin
    then have "f' = ?f0\<lparr>rf_state := RTcpHeader 0\<rparr>" "out = None" "sh' = sh"
      using assms True by (auto simp: recv_iter_def recv_begin_def tcp_rel_def)
    moreover have "tcp_rel L ts0 bodies (?f0\<lparr>rf_state := RTcpHeader 0\<rparr>) sh"
      using rel RBegin by (simp add: tcp_rel_def)
    ultimately show ?thesis by auto
  next
    case (RTcpHeader got)
    then have "recv_header got ?f0 = (out, f')" "sh' = sh"
      using assms(1) True by (auto simp: recv_iter_def split: prod.splits)
    with tcp_header [OF _ rel] RTcpHeader show ?thesis by simp
  next
    case (RTcpBody len got)
    then have "recv_body L len got ?f0 = (out, f')" "sh' = sh"
      using assms(1) True by (auto simp: recv_iter_def split: prod.splits)
    with tcp_body [OF _ rel] RTcpBody show ?thesis by simp
  next
    case RLock
    then have "recv_lock L ?f0 sh = (out, f', sh')" using assms(1) True by (simp add: recv_iter_def)
    with tcp_lock [OF _ rel] RLock show ?thesis by simp
  qed
qed

lemma tcp_poll:
  "recv_poll L f sh = (out, f', sh') \<Longrightarrow> tcp_rel L ts0 bodies f sh \<Longrightarrow>
   (\<exists>bodies'. tcp_rel L ts0 bodies' f' sh') \<and> (\<forall>m. out \<noteq> Ready (Panic m))"
proof (induction L f sh arbitrary: bodies rule: recv_poll.induct)
  case (1 L f sh)
  obtain o1 f1 sh1 where i: "recv_iter L f sh = (o1, f1, sh1)" by (metis prod_cases3)
  note t = tcp_iter [OF i 1(3)]
  show ?case
  proof (cases o1)
    case None
    with t obtain bodies' where "tcp_rel L ts0 bodies' f1 sh1" by blast
    with 1(1) [OF i [symmetric] None refl] 1(2) show ?thesis using None i
      by (simp add: recv_poll_step)
  next
    case (Some o2)
    with 1(2) i t show ?thesis by (auto simp: recv_poll_stop)
  qed
qed

text \<open>The future polled again and again until it ends.\<close>

fun recv_polls ::
    "nat \<Rightarrow> ('m, 'q, 'n, 'r) dns_lib \<Rightarrow> 'm recv_fut \<Rightarrow> shared \<Rightarrow> fut_out \<times> 'm recv_fut \<times> shared" where
  "recv_polls 0 L f sh = (Pending, f, sh)"
| "recv_polls (Suc k) L f sh =
     (case recv_poll L f sh of
        (Pending, f', sh') \<Rightarrow> recv_polls k L f' sh'
      | (Ready x, f', sh') \<Rightarrow> (Ready x, f', sh'))"

lemma tcp_polls:
  "recv_polls k L f sh = (out, f', sh') \<Longrightarrow> tcp_rel L ts0 bodies f sh \<Longrightarrow>
   (\<exists>bodies'. tcp_rel L ts0 bodies' f' sh') \<and> (\<forall>m. out \<noteq> Ready (Panic m))"
proof (induction k arbitrary: f sh bodies)
  case (Suc k)
  obtain o1 f1 sh1 where p: "recv_poll L f sh = (o1, f1, sh1)" by (metis prod_cases3)
  from tcp_poll [OF p Suc.prems(2)] Suc.IH Suc.prems(1) p show ?case by (cases o1) auto
qed auto

text \<open>
  C21: the receiving future reassembles DNS over TCP whatever the segmentation. However the bytes of
  the upstream connection are cut into reads and whenever the future is polled, it never panics
  (while the tunnel takes what it is given), and what was sent into the tunnel and removed from the
  sessions is what the complete messages among the bytes read so far call for, in their order; only
  the last one may still wait for the lock.
\<close>

theorem recv_tcp_reassembles:
  assumes "read_contract rd"
    and "recv_polls k L (recv_fut_new Tcp rd lock) sh = (out, f, sh')"
    and "deframe (rf_read f) = (bodies, partial)"
  shows "(\<forall>m. out \<noteq> Ready (Panic m)) \<and> (rf_tun f, sh_sessions sh') =
    foldl (deliver_body L) ([], sh_sessions sh) (if rf_state f = RLock then butlast bodies else bodies)"
proof -
  have "tcp_rel L ([], sh_sessions sh) [] (recv_fut_new Tcp rd lock) sh"
    using assms(1) by (simp add: tcp_rel_def recv_fut_new_def)
  from tcp_polls [OF assms(2) this] obtain bodies' where
    rel: "tcp_rel L ([], sh_sessions sh) bodies' f sh'" and np: "\<forall>m. out \<noteq> Ready (Panic m)" by blast
  then have "deframe (rf_read f) = (bodies', partial_of (rf_state f) (rf_buf f))"
    using deframe_concat [of bodies'] unframe_partial by (simp add: tcp_rel_def)
  with assms(3) rel np show ?thesis by (simp add: tcp_rel_def split: if_splits)
qed

definition sample_reads :: "(nat \<Rightarrow> bytes io_result poll) list" where
  "sample_reads = [\<lambda>n. Ready (Ok (take n [0])), \<lambda>n. Ready (Ok (take n [3])), \<lambda>n. Ready (Ok (take n [0, 7])),
     \<lambda>n. Ready (Ok (take n [1]))]"

definition sample_shared :: shared where
  "sample_shared = \<lparr>sh_id = 8,
     sh_sessions = [7 \<mapsto> \<lparr>ds_peer = sample_peer 1, ds_old_id = 78, ds_id = 7, ds_time = 0\<rparr>]\<rparr>"

lemma sample_recv_run:
  fixes f0 :: "sample_msg recv_fut"
  defines "f0 \<equiv> recv_fut_new Tcp sample_reads [True]"
  shows "rf_read (fst (snd (recv_polls (Suc (Suc (Suc 0))) sample_lib f0 sample_shared))) = [0, 3, 0, 7, 1]"
    "rf_state (fst (snd (recv_polls (Suc (Suc (Suc 0))) sample_lib f0 sample_shared))) = RTcpHeader 0"
  by (simp_all add: f0_def recv_fut_new_def sample_reads_def sample_shared_def recv_poll.simps
      recv_iter_def recv_begin_def recv_header_def recv_body_def recv_lock_def recv_deliver_def tun_send_def
      poll_upstream_recv_def Let_def u16_from_be_bytes_def sample_lib_def sample_to_vec_def)

theorem recv_tcp_reassembles_witness:
  "rf_tun (fst (snd (recv_polls (Suc (Suc (Suc 0))) sample_lib (recv_fut_new Tcp sample_reads [True]) sample_shared))) =
     [([0, 78, 0], peer_dest (sample_peer 1), peer_src (sample_peer 1))]"
proof -
  obtain out f sh' where r: "recv_polls (Suc (Suc (Suc 0))) sample_lib (recv_fut_new Tcp sample_reads [True]) sample_shared =
      (out, f, sh')" by (metis prod_cases3)
  have c: "read_contract sample_reads" by (simp add: read_contract_def sample_reads_def)
  have u: "u16_from_be_bytes [0, 3] = 3" "u16_from_be_bytes [0, 7] = 7" "u16_to_be_bytes 78 = [0, 78]"
    by (simp_all add: u16_from_be_bytes_def u16_to_be_bytes_def be_bytes_2)
  have f: "rf_read f = [0, 3, 0, 7, 1]" "rf_state f = RTcpHeader 0" using sample_recv_run r by auto
  have d: "deframe (rf_read f) = ([[0, 7, 1]], [])" 
  proof -
    have "unframe [0, 3, 0, 7, 1] = Some ([0, 7, 1], [])" "unframe [] = None" by (simp_all add: unframe_def u)
    then show ?thesis
      by (simp add: f(1) deframe.simps [of "[0, 3, 0, 7, 1]"] deframe.simps [of "[]"])
  qed
  have "fst (foldl (deliver_body sample_lib) ([], sh_sessions sample_shared) [[0, 7, 1]]) =
      [([0, 78, 0], peer_dest (sample_peer 1), peer_src (sample_peer 1))]"
    by (simp add: deliver_body_def reply_effect_def sample_shared_def sample_lib_def sample_to_vec_def u)
  moreover have "rf_tun f = fst (foldl (deliver_body sample_lib) ([], sh_sessions sample_shared) [[0, 7, 1]])"
    using recv_tcp_reassembles [OF c r d, THEN conjunct2, THEN arg_cong [where f = fst]] f(2) by simp
  ultimately show ?thesis unfolding r by simp
qed

text \<open>
  Framing for TCP. A message of up to 65535 bytes is framed and a longer one is refused; a
  stream of framed messages is read back as those messages, whatever follows.
\<close>

theorem frame_dns_tcp_roundtrip:
  assumes "\<forall>v \<in> set vs. \<exists>p. frame_dns_tcp p = Ok v"
  shows "\<exists>ps. map frame_dns_tcp ps = map Ok vs
    \<and> decode_all (length ps) unframe (concat vs @ rest) = (ps, rest)
    \<and> (\<forall>p. (\<exists>e. frame_dns_tcp p = Err e) = (65535 < length p))"
proof -
  from assms have "\<exists>ps. map frame_dns_tcp ps = map Ok vs \<and> vs = map frame_bytes ps \<and> (\<forall>p \<in> set ps. length p \<le> 65535)"
  proof (induction vs)
    case (Cons v vs)
    then obtain ps p where "map frame_dns_tcp ps = map Ok vs" "vs = map frame_bytes ps"
      "\<forall>p \<in> set ps. length p \<le> 65535" "frame_dns_tcp p = Ok v" by auto
    then show ?case by (intro exI [of _ "p # ps"]) (simp add: frame_dns_tcp_iff)
  qed simp
  then obtain ps where ps: "map frame_dns_tcp ps = map Ok vs" "vs = map frame_bytes ps"
    "\<forall>p \<in> set ps. length p \<le> 65535" by blast
  have "(\<exists>e. frame_dns_tcp p = Err e) = (65535 < length p)" for p
    by (simp add: frame_dns_tcp_def Let_def)
  with ps dns_frame.decode_all_concat [OF ps(3), of rest] show ?thesis by metis
qed

theorem frame_dns_tcp_roundtrip_witness:
  "\<exists>ps. map frame_dns_tcp ps = [Ok [0, 2, 8, 9], Ok [0, 1, 5]]
     \<and> decode_all (length ps) unframe [0, 2, 8, 9, 0, 1, 5, 4] = (ps, [4])"
proof -
  have "frame_dns_tcp [8, 9] = Ok [0, 2, 8, 9]" "frame_dns_tcp [5] = Ok [0, 1, 5]"
    by (simp_all add: frame_dns_tcp_ok frame_bytes_def u16_to_be_bytes_def be_bytes_2)
  then have "\<forall>v \<in> set [[0, 2, 8, 9], [0, 1, 5]]. \<exists>p. frame_dns_tcp p = Ok v" by auto
  from frame_dns_tcp_roundtrip [OF this, of "[4]"] obtain ps where
    "map frame_dns_tcp ps = map Ok [[0, 2, 8, 9], [0, 1, 5]]"
    "decode_all (length ps) unframe (concat [[0, 2, 8, 9], [0, 1, 5]] @ [4]) = (ps, [4])"
    by blast
  then show ?thesis by (intro exI [of _ ps] conjI) simp_all
qed

end
