(* ===== verification/Net_Sys.thy ===== *)
theory Net_Sys
  imports Rtun_Prelude
begin

text \<open>
  \<open>crates/tun/src/net/sys\<close>: the outbound sockets of \<open>unix.rs\<close> and the binding of a socket to an
  interface, \<open>linux.rs\<close> and \<open>macos.rs\<close> with its cache of interface indices. The operating system is
  a parameter: for every call its outcome (\<open>None\<close> is success), and for every moment and interface
  name the index that \<open>if_nametoindex\<close> finds. A socket is the record of what was set on it. Times
  are in milliseconds.
\<close>

section \<open>Calls and sockets\<close>

datatype platform = Linux | Macos
datatype sock_domain = IPV4 | IPV6
datatype sock_type = DGRAM | STREAM

datatype sys_call = CallSocket sock_domain sock_type | CallBind sock_domain socket_addr | CallNonblocking
  | CallBindToDevice string | CallBoundIf sock_domain u32 | CallKeepalive
  | CallTcpKeepalive u64 u64 u32 | CallFromStd

record os_env =
  os_call :: "sys_call \<Rightarrow> io_error option"
  os_if_nametoindex :: "nat \<Rightarrow> string \<Rightarrow> u32"
  os_last_error :: "nat \<Rightarrow> string \<Rightarrow> io_error"

record net_socket =
  ns_domain :: sock_domain
  ns_type :: sock_type
  ns_bind :: "socket_addr option"
  ns_nonblocking :: bool
  ns_ifaces :: "string list"
  ns_keepalive :: "(u64 \<times> u64 \<times> u32) option"

definition sys :: "os_env \<Rightarrow> sys_call \<Rightarrow> unit io_result" where
  "sys os c = (case os_call os c of None \<Rightarrow> Ok () | Some e \<Rightarrow> Err e)"

fun domain_of :: "socket_addr \<Rightarrow> sock_domain" where
  "domain_of (V4 _) = IPV4"
| "domain_of (V6 _) = IPV6"

definition socket_new :: "os_env \<Rightarrow> sock_domain \<Rightarrow> sock_type \<Rightarrow> net_socket io_result" where
  "socket_new os d t =
     (case sys os (CallSocket d t) of
        Ok _ \<Rightarrow> Ok \<lparr>ns_domain = d, ns_type = t, ns_bind = None, ns_nonblocking = False, ns_ifaces = [],
                     ns_keepalive = None\<rparr>
      | Err e \<Rightarrow> Err e
      | Panic m \<Rightarrow> Panic m)"

section \<open>Binding to an interface\<close>

type_synonym index_cache = "string \<rightharpoonup> u32 \<times> nat"

definition IFNAMSIZ :: nat where "IFNAMSIZ = 16"
definition INDEX_EXPIRE_DURATION :: nat where "INDEX_EXPIRE_DURATION = 5000"

text \<open>The second half of \<open>find_interface_index_cached\<close>: ask the system and remember the answer.\<close>

definition lookup_index :: "os_env \<Rightarrow> nat \<Rightarrow> string \<Rightarrow> index_cache \<Rightarrow> u32 io_result \<times> index_cache" where
  "lookup_index os now iface cache =
     (if IFNAMSIZ \<le> length iface then (Err (IoError InvalidInput ''invalid input parameter''), cache)
      else
        (let index = os_if_nametoindex os now iface in
         if index = 0 then (Err (os_last_error os now iface), cache)
         else (Ok index, cache(iface \<mapsto> (index, now)))))"

definition find_interface_index_cached ::
    "os_env \<Rightarrow> nat \<Rightarrow> string \<Rightarrow> index_cache \<Rightarrow> u32 io_result \<times> index_cache" where
  "find_interface_index_cached os now iface cache =
     (case cache iface of
        Some (idx, insert_time) \<Rightarrow>
          if now - insert_time < INDEX_EXPIRE_DURATION then (Ok idx, cache)
          else lookup_index os now iface cache
      | None \<Rightarrow> lookup_index os now iface cache)"

definition set_ip_bound_if_macos ::
    "os_env \<Rightarrow> nat \<Rightarrow> socket_addr \<Rightarrow> string \<Rightarrow> index_cache \<Rightarrow> unit io_result \<times> index_cache" where
  "set_ip_bound_if_macos os now addr iface cache =
     (case find_interface_index_cached os now iface cache of
        (Ok index, cache') \<Rightarrow> (sys os (CallBoundIf (domain_of addr) index), cache')
      | (Err e, cache') \<Rightarrow> (Err e, cache')
      | (Panic m, cache') \<Rightarrow> (Panic m, cache'))"

definition set_ip_bound_if_linux :: "os_env \<Rightarrow> string \<Rightarrow> unit io_result" where
  "set_ip_bound_if_linux os iface = sys os (CallBindToDevice iface)"

definition set_ip_bound_if ::
    "platform \<Rightarrow> os_env \<Rightarrow> nat \<Rightarrow> socket_addr \<Rightarrow> string \<Rightarrow> index_cache \<Rightarrow> unit io_result \<times> index_cache" where
  "set_ip_bound_if plat os now addr iface cache =
     (case plat of
        Linux \<Rightarrow> (set_ip_bound_if_linux os iface, cache)
      | Macos \<Rightarrow> set_ip_bound_if_macos os now addr iface cache)"

text \<open>The loop over \<open>OUTBOUND_INTERFACES\<close>, left at the first error.\<close>

fun bind_ifaces ::
    "platform \<Rightarrow> os_env \<Rightarrow> nat \<Rightarrow> socket_addr \<Rightarrow> string list \<Rightarrow> net_socket \<Rightarrow> index_cache
     \<Rightarrow> net_socket io_result \<times> index_cache" where
  "bind_ifaces plat os now addr [] s cache = (Ok s, cache)"
| "bind_ifaces plat os now addr (iface # ifaces) s cache =
     (case set_ip_bound_if plat os now addr iface cache of
        (Ok _, cache') \<Rightarrow>
          bind_ifaces plat os now addr ifaces (s\<lparr>ns_ifaces := ns_ifaces s @ [iface]\<rparr>) cache'
      | (Err e, cache') \<Rightarrow> (Err e, cache')
      | (Panic m, cache') \<Rightarrow> (Panic m, cache'))"

section \<open>Outbound sockets\<close>

definition bind_local :: "os_env \<Rightarrow> socket_addr option \<Rightarrow> net_socket \<Rightarrow> net_socket io_result" where
  "bind_local os bind_addr s =
     (case bind_addr of
        None \<Rightarrow> Ok s
      | Some a \<Rightarrow>
        (case sys os (CallBind (ns_domain s) a) of
           Ok _ \<Rightarrow> Ok (s\<lparr>ns_bind := Some a\<rparr>) | Err e \<Rightarrow> Err e | Panic m \<Rightarrow> Panic m))"

definition set_nonblocking :: "os_env \<Rightarrow> net_socket \<Rightarrow> net_socket io_result" where
  "set_nonblocking os s =
     (case sys os CallNonblocking of
        Ok _ \<Rightarrow> Ok (s\<lparr>ns_nonblocking := True\<rparr>) | Err e \<Rightarrow> Err e | Panic m \<Rightarrow> Panic m)"

definition create_outbound_udp_socket ::
    "platform \<Rightarrow> os_env \<Rightarrow> nat \<Rightarrow> string list \<Rightarrow> socket_addr \<Rightarrow> socket_addr option \<Rightarrow> index_cache
     \<Rightarrow> net_socket io_result \<times> index_cache" where
  "create_outbound_udp_socket plat os now ifaces addr bind_addr cache =
     (case socket_new os (domain_of addr) DGRAM of
        Err e \<Rightarrow> (Err e, cache) | Panic m \<Rightarrow> (Panic m, cache)
      | Ok s0 \<Rightarrow>
     (case bind_local os bind_addr s0 of
        Err e \<Rightarrow> (Err e, cache) | Panic m \<Rightarrow> (Panic m, cache)
      | Ok s1 \<Rightarrow>
     (case set_nonblocking os s1 of
        Err e \<Rightarrow> (Err e, cache) | Panic m \<Rightarrow> (Panic m, cache)
      | Ok s2 \<Rightarrow>
     (case bind_ifaces plat os now addr ifaces s2 cache of
        (Err e, cache') \<Rightarrow> (Err e, cache') | (Panic m, cache') \<Rightarrow> (Panic m, cache')
      | (Ok s3, cache') \<Rightarrow>
     (case sys os CallFromStd of
        Ok _ \<Rightarrow> (Ok s3, cache') | Err e \<Rightarrow> (Err e, cache') | Panic m \<Rightarrow> (Panic m, cache'))))))"

text \<open>The keepalive settings: idle time, interval and retries.\<close>

definition set_keepalive :: "os_env \<Rightarrow> u64 \<times> u64 \<times> u32 \<Rightarrow> net_socket \<Rightarrow> net_socket io_result" where
  "set_keepalive os ka s =
     (case ka of (time, interval, retries) \<Rightarrow>
      (case sys os CallKeepalive of
         Err e \<Rightarrow> Err e | Panic m \<Rightarrow> Panic m
       | Ok _ \<Rightarrow>
      (case sys os (CallTcpKeepalive time interval retries) of
         Ok _ \<Rightarrow> Ok (s\<lparr>ns_keepalive := Some ka\<rparr>) | Err e \<Rightarrow> Err e | Panic m \<Rightarrow> Panic m)))"

definition create_outbound_tcp_socket ::
    "platform \<Rightarrow> os_env \<Rightarrow> nat \<Rightarrow> string list \<Rightarrow> u64 \<times> u64 \<times> u32 \<Rightarrow> socket_addr \<Rightarrow> index_cache
     \<Rightarrow> net_socket io_result \<times> index_cache" where
  "create_outbound_tcp_socket plat os now ifaces ka addr cache =
     (case socket_new os (domain_of addr) STREAM of
        Err e \<Rightarrow> (Err e, cache) | Panic m \<Rightarrow> (Panic m, cache)
      | Ok s0 \<Rightarrow>
     (case bind_ifaces plat os now addr ifaces s0 cache of
        (Err e, cache') \<Rightarrow> (Err e, cache') | (Panic m, cache') \<Rightarrow> (Panic m, cache')
      | (Ok s1, cache') \<Rightarrow>
     (case set_keepalive os ka s1 of
        Err e \<Rightarrow> (Err e, cache') | Panic m \<Rightarrow> (Panic m, cache')
      | Ok s2 \<Rightarrow> (set_nonblocking os s2, cache'))))"

section \<open>Lemmas\<close>

lemma sys_cases: "sys os c = Ok () \<or> (\<exists>e. sys os c = Err e)"
  by (simp add: sys_def split: option.split)

lemma sys_no_panic [simp]: "sys os c \<noteq> Panic m"
  by (simp add: sys_def split: option.split)

lemma find_index_no_panic [simp]: "find_interface_index_cached os now iface cache \<noteq> (Panic m, c)"
  by (simp add: find_interface_index_cached_def lookup_index_def Let_def split: option.split)

lemma set_ip_bound_if_no_panic [simp]: "set_ip_bound_if plat os now addr iface cache \<noteq> (Panic m, c)"
  by (auto simp: set_ip_bound_if_def set_ip_bound_if_linux_def set_ip_bound_if_macos_def
      split: platform.split prod.splits result.splits)

lemma bind_ifaces_result:
  "bind_ifaces plat os now addr ifaces s cache = (r, cache') \<Longrightarrow>
   (\<forall>m. r \<noteq> Panic m) \<and> (\<forall>s'. r = Ok s' \<longrightarrow> s' = s\<lparr>ns_ifaces := ns_ifaces s @ ifaces\<rparr>)"
proof (induction ifaces arbitrary: s cache)
  case (Cons iface ifaces)
  obtain q c where q: "set_ip_bound_if plat os now addr iface cache = (q, c)" by fastforce
  show ?case
  proof (cases q)
    case (Ok u)
    with Cons.IH [of "s\<lparr>ns_ifaces := ns_ifaces s @ [iface]\<rparr>" c] Cons.prems q show ?thesis by simp
  qed (use Cons q in auto)
qed auto

text \<open>
  What the cache promises: an entry is an index that the system gave for the name at the time
  noted, and is never 0.
\<close>

definition cache_ok :: "os_env \<Rightarrow> nat \<Rightarrow> index_cache \<Rightarrow> bool" where
  "cache_ok os now cache \<longleftrightarrow> (\<forall>iface idx t. cache iface = Some (idx, t) \<longrightarrow>
     t \<le> now \<and> idx = os_if_nametoindex os t iface \<and> idx \<noteq> 0 \<and> length iface < IFNAMSIZ)"

lemma find_index_result:
  assumes "cache_ok os now cache" "find_interface_index_cached os now iface cache = (r, cache')"
  shows "cache_ok os now cache'"
    "\<And>idx. r = Ok idx \<Longrightarrow> \<exists>t. t \<le> now \<and> now < t + INDEX_EXPIRE_DURATION \<and> idx = os_if_nametoindex os t iface \<and> idx \<noteq> 0"
proof -
  have look: "cache_ok os now c" "\<And>idx. q = Ok idx \<Longrightarrow> idx = os_if_nametoindex os now iface \<and> idx \<noteq> 0"
    if "lookup_index os now iface cache = (q, c)" for q c
    using that assms(1) by (auto simp: lookup_index_def cache_ok_def Let_def split: if_splits; blast)+
  show "cache_ok os now cache'"
    using assms look by (auto simp: find_interface_index_cached_def split: option.splits if_splits)
  show "\<exists>t. t \<le> now \<and> now < t + INDEX_EXPIRE_DURATION \<and> idx = os_if_nametoindex os t iface \<and> idx \<noteq> 0"
    if "r = Ok idx" for idx
  proof (cases "\<exists>t. cache iface = Some (idx, t) \<and> now - t < INDEX_EXPIRE_DURATION")
    case True
    then obtain t where "cache iface = Some (idx, t)" "now - t < INDEX_EXPIRE_DURATION" by blast
    with assms(1) show ?thesis by (intro exI [of _ t]) (auto simp: cache_ok_def)
  next
    case False
    with assms(2) that have "lookup_index os now iface cache = (r, cache')"
      by (auto simp: find_interface_index_cached_def split: option.splits if_splits)
    from look(2) [OF this that] show ?thesis by (intro exI [of _ now]) (auto simp: INDEX_EXPIRE_DURATION_def)
  qed
qed

section \<open>Properties\<close>


definition sample_os :: os_env where
  "sample_os = \<lparr>os_call = (\<lambda>c. None), os_if_nametoindex = (\<lambda>t i. if i = ''eth0'' then 2 else 0),
     os_last_error = (\<lambda>t i. IoError Other ''no such device'')\<rparr>"


text \<open>
  On macOS an interface index that is returned was the system's index of that interface at some
  moment of the last five seconds and is not 0, and the cache keeps this promise.
\<close>

theorem interface_index_fresh:
  assumes "cache_ok os now cache" "find_interface_index_cached os now iface cache = (r, cache')"
  shows "cache_ok os now cache' \<and> (\<forall>idx. r = Ok idx \<longrightarrow>
     (\<exists>t. t \<le> now \<and> now < t + 5000 \<and> idx = os_if_nametoindex os t iface \<and> idx \<noteq> 0))"
  using find_index_result [OF assms] by (simp add: INDEX_EXPIRE_DURATION_def)

theorem interface_index_fresh_witness:
  "find_interface_index_cached sample_os 9000 ''eth0'' [''eth0'' \<mapsto> (2, 3000)] = (Ok 2, [''eth0'' \<mapsto> (2, 9000)])
   \<and> cache_ok sample_os 9000 [''eth0'' \<mapsto> (2, 9000)]"
proof -
  have f: "find_interface_index_cached sample_os 9000 ''eth0'' [''eth0'' \<mapsto> (2, 3000)] =
      (Ok 2, [''eth0'' \<mapsto> (2, 9000)])"
    by (simp add: find_interface_index_cached_def lookup_index_def INDEX_EXPIRE_DURATION_def IFNAMSIZ_def sample_os_def)
  moreover have "cache_ok sample_os 9000 [''eth0'' \<mapsto> (2, 3000)]"
    by (simp add: cache_ok_def sample_os_def IFNAMSIZ_def)
  ultimately show ?thesis using interface_index_fresh [OF _ f] by simp
qed

end
