(* ===== verification/Dns_Proxy.thy ===== *)
theory Dns_Proxy
  imports Dns_Upstream Net_Sys
begin

text \<open>
  \<open>crates/tun/src/dns_proxy.rs\<close>, lines 391 to 587: the proxy that spreads DNS queries over its
  upstream connections. The slots hold at most one \<open>UpstreamSender\<close> each; a sender belongs to the
  pair of spawned futures, an \<open>upstream_task\<close>, and slots refer to tasks by number, so that dropping
  a sender (\<open>impl Drop\<close>) is visible as a change of its task. The futures themselves are in
  \<open>Dns_Upstream\<close>; here they only take messages and end. The configuration, the platform, the
  operating system and the outcome of connecting are in \<open>proxy_env\<close>. Additions are checked, as
  in a build with overflow checks.
\<close>

section \<open>State\<close>

record 'm upstream_task =
  ut_proto :: dns_upstream_proto
  ut_dest :: socket_addr
  ut_queue :: "(udp_peer \<times> 'm) list"
  ut_rx_alive :: bool
  ut_tx_alive :: bool
  ut_running :: bool
  ut_woken :: bool

record 'm dns_proxy =
  dp_upstream :: "nat option list"
  dp_tasks :: "'m upstream_task list"
  dp_shared :: shared
  dp_session_clear :: bool
  dp_idx :: nat
  dp_max_upstream :: byte
  dp_dns_listen_port :: u16
  dp_cache :: index_cache

text \<open>\<open>pe_connect\<close> is the outcome of \<open>TcpSocket::connect\<close> under the timeout (\<open>None\<close> when it expires).\<close>

record proxy_env =
  pe_plat :: platform
  pe_os :: os_env
  pe_ifaces :: "string list"
  pe_keepalive :: "u64 \<times> u64 \<times> u32"
  pe_proto :: dns_upstream_proto
  pe_connect :: "socket_addr \<Rightarrow> unit io_result option"

datatype proxy_error = TcpSocketError io_error | TcpConnectTimeout | TcpConnectError io_error

definition dns_proxy_new :: "byte \<Rightarrow> u16 \<Rightarrow> 'm dns_proxy" where
  "dns_proxy_new max_upstream port =
     \<lparr>dp_upstream = replicate (unat max_upstream) None, dp_tasks = [],
      dp_shared = \<lparr>sh_id = 1, sh_sessions = Map.empty\<rparr>, dp_session_clear = True, dp_idx = 0,
      dp_max_upstream = max_upstream, dp_dns_listen_port = port, dp_cache = Map.empty\<rparr>"

section \<open>Operations\<close>

text \<open>\<open>Drop for UpstreamSender\<close>: the channel loses its sender, the receiving future is told to stop.\<close>

definition stop_task :: "'m upstream_task \<Rightarrow> 'm upstream_task" where
  "stop_task t = t\<lparr>ut_tx_alive := False, ut_running := False, ut_woken := True\<rparr>"

definition drop_sender :: "nat option \<Rightarrow> 'm upstream_task list \<Rightarrow> 'm upstream_task list" where
  "drop_sender slot ts = (case slot of None \<Rightarrow> ts | Some t \<Rightarrow> ts[t := stop_task (ts ! t)])"

text \<open>The task of \<open>dns_clear_rx\<close>: every slot is set to \<open>None\<close>.\<close>

definition dns_clear :: "'m dns_proxy \<Rightarrow> 'm dns_proxy" where
  "dns_clear st = st\<lparr>dp_upstream := map (\<lambda>_. None) (dp_upstream st),
                     dp_tasks := fold drop_sender (dp_upstream st) (dp_tasks st)\<rparr>"

text \<open>One round of the task that forgets old sessions; \<open>timeout\<close> is in seconds, times in milliseconds.\<close>

definition session_sweep :: "nat \<Rightarrow> nat \<Rightarrow> sessions \<Rightarrow> sessions" where
  "session_sweep timeout now ss =
     (\<lambda>id. case ss id of
        None \<Rightarrow> None
      | Some s \<Rightarrow> if timeout < (now - ds_time s) div 1000 then None else Some s)"

definition open_udp ::
    "proxy_env \<Rightarrow> nat \<Rightarrow> socket_addr \<Rightarrow> u16 \<Rightarrow> index_cache \<Rightarrow> (unit, proxy_error) result \<times> u16 \<times> index_cache" where
  "open_udp env now dest port cache =
     (case create_outbound_udp_socket (pe_plat env) (pe_os env) now (pe_ifaces env) dest
             (Some (V4 \<lparr>v4_ip = Ipv4Addr 0 0 0 0, v4_port = port\<rparr>)) cache of
        (Ok _, cache') \<Rightarrow>
          if port = 65535 then (Panic ''attempt to add with overflow'', port, cache')
          else (Ok (), port + 1, cache')
      | (_, cache') \<Rightarrow> (Panic ''unwrap on Err'', port, cache'))"

definition open_tcp ::
    "proxy_env \<Rightarrow> nat \<Rightarrow> socket_addr \<Rightarrow> u16 \<Rightarrow> index_cache \<Rightarrow> (unit, proxy_error) result \<times> u16 \<times> index_cache" where
  "open_tcp env now dest port cache =
     (case create_outbound_tcp_socket (pe_plat env) (pe_os env) now (pe_ifaces env) (pe_keepalive env) dest cache of
        (Err e, cache') \<Rightarrow> (Err (TcpSocketError e), port, cache')
      | (Panic m, cache') \<Rightarrow> (Panic m, port, cache')
      | (Ok _, cache') \<Rightarrow>
        (case pe_connect env dest of
           None \<Rightarrow> (Err TcpConnectTimeout, port, cache')
         | Some (Err e) \<Rightarrow> (Err (TcpConnectError e), port, cache')
         | Some (Panic m) \<Rightarrow> (Panic m, port, cache')
         | Some (Ok _) \<Rightarrow> (Ok (), port, cache')))"

text \<open>
  \<open>start_upstream\<close> for slot \<open>i\<close>: open the sockets, queue the message, replace the sender of the slot
  (the old one is dropped) and spawn the two futures. The result carries the next listening port.
\<close>

definition start_upstream ::
    "proxy_env \<Rightarrow> nat \<Rightarrow> nat \<Rightarrow> socket_addr \<Rightarrow> socket_addr \<Rightarrow> 'm \<Rightarrow> 'm dns_proxy
     \<Rightarrow> (unit, proxy_error) result \<times> u16 \<times> 'm dns_proxy" where
  "start_upstream env now i src dest message st =
     (case (case pe_proto env of
              Udp \<Rightarrow> open_udp env now dest (dp_dns_listen_port st) (dp_cache st)
            | Tcp \<Rightarrow> open_tcp env now dest (dp_dns_listen_port st) (dp_cache st)) of
        (Ok _, port, cache) \<Rightarrow>
          (let task = \<lparr>ut_proto = pe_proto env, ut_dest = dest,
                       ut_queue = [(\<lparr>peer_src = src, peer_dest = dest\<rparr>, message)], ut_rx_alive = True,
                       ut_tx_alive = True, ut_running = True, ut_woken = False\<rparr> in
           (Ok (), port,
            st\<lparr>dp_cache := cache,
               dp_upstream := (dp_upstream st)[i := Some (length (dp_tasks st))],
               dp_tasks := drop_sender (dp_upstream st ! i) (dp_tasks st) @ [task]\<rparr>))
      | (Err e, port, cache) \<Rightarrow> (Err e, port, st\<lparr>dp_cache := cache\<rparr>)
      | (Panic m, port, cache) \<Rightarrow> (Panic m, port, st\<lparr>dp_cache := cache\<rparr>))"

definition enqueue :: "nat \<Rightarrow> udp_peer \<times> 'm \<Rightarrow> 'm upstream_task list \<Rightarrow> 'm upstream_task list" where
  "enqueue t pm ts = ts[t := (ts ! t)\<lparr>ut_queue := ut_queue (ts ! t) @ [pm]\<rparr>]"

definition commit_port :: "(unit, proxy_error) result \<times> u16 \<times> 'm dns_proxy \<Rightarrow> (unit, proxy_error) result \<times> 'm dns_proxy" where
  "commit_port r =
     (case r of
        (Ok _, port, st) \<Rightarrow> (Ok (), st\<lparr>dp_dns_listen_port := port\<rparr>)
      | (Err e, port, st) \<Rightarrow> (Err e, st)
      | (Panic m, port, st) \<Rightarrow> (Panic m, st))"

definition dns_proxy_send ::
    "proxy_env \<Rightarrow> nat \<Rightarrow> socket_addr \<Rightarrow> socket_addr \<Rightarrow> 'm \<Rightarrow> 'm dns_proxy
     \<Rightarrow> (unit, proxy_error) result \<times> 'm dns_proxy" where
  "dns_proxy_send env now src dest msg st =
     (if dp_max_upstream st = 0 then (Panic ''attempt to calculate the remainder with a divisor of zero'', st)
      else
        (let idx = dp_idx st mod unat (dp_max_upstream st);
             st1 = st\<lparr>dp_idx := dp_idx st + 1, dp_session_clear := False\<rparr> in
         if length (dp_upstream st1) \<le> idx then (Panic ''can't reach there.'', st1)
         else
           (case dp_upstream st1 ! idx of
              None \<Rightarrow> commit_port (start_upstream env now idx src dest msg st1)
            | Some t \<Rightarrow>
              if ut_rx_alive (dp_tasks st1 ! t)
              then (Ok (), st1\<lparr>dp_tasks := enqueue t (\<lparr>peer_src = src, peer_dest = dest\<rparr>, msg) (dp_tasks st1)\<rparr>)
              else commit_port (start_upstream env now idx src dest msg st1))))"

section \<open>Histories\<close>

text \<open>
  What can happen to a proxy, in any order: a query, the notification to release the listeners, a
  sending future that takes a message or ends, a round of the session sweeper.
\<close>

datatype 'm proxy_event = EvSend nat socket_addr socket_addr 'm | EvClear | EvTake nat | EvSendFutEnd nat
  | EvSweep nat

definition on_task :: "('m upstream_task \<Rightarrow> 'm upstream_task) \<Rightarrow> nat \<Rightarrow> 'm dns_proxy \<Rightarrow> 'm dns_proxy" where
  "on_task g t st = st\<lparr>dp_tasks := (dp_tasks st)[t := g (dp_tasks st ! t)]\<rparr>"

fun proxy_do :: "proxy_env \<Rightarrow> nat \<Rightarrow> 'm proxy_event \<Rightarrow> 'm dns_proxy \<Rightarrow> 'm dns_proxy" where
  "proxy_do env timeout (EvSend now src dest msg) st = snd (dns_proxy_send env now src dest msg st)"
| "proxy_do env timeout EvClear st = dns_clear st"
| "proxy_do env timeout (EvTake t) st = on_task (\<lambda>u. u\<lparr>ut_queue := tl (ut_queue u)\<rparr>) t st"
| "proxy_do env timeout (EvSendFutEnd t) st = on_task (\<lambda>u. u\<lparr>ut_rx_alive := False, ut_queue := []\<rparr>) t st"
| "proxy_do env timeout (EvSweep now) st =
     st\<lparr>dp_shared := (dp_shared st)\<lparr>sh_sessions := session_sweep timeout now (sh_sessions (dp_shared st))\<rparr>\<rparr>"

definition proxy_step :: "proxy_env \<Rightarrow> nat \<Rightarrow> 'm dns_proxy \<Rightarrow> 'm proxy_event \<Rightarrow> 'm dns_proxy \<Rightarrow> bool" where
  "proxy_step env timeout s ev t \<longleftrightarrow> t = proxy_do env timeout ev s"

text \<open>
  The invariant: there are as many slots as configured, a slot refers to a task, no two slots share
  one, and a task is running exactly while a slot holds its sender; a task that lost its sender was
  told so.
\<close>

definition slots_ok :: "nat option list \<Rightarrow> 'm upstream_task list \<Rightarrow> bool" where
  "slots_ok slots ts \<longleftrightarrow>
     (\<forall>i < length slots. \<forall>t. slots ! i = Some t \<longrightarrow> t < length ts \<and>
        (\<forall>j < length slots. slots ! j = Some t \<longrightarrow> j = i))
   \<and> (\<forall>t < length ts. ut_running (ts ! t) = (Some t \<in> set slots)
        \<and> ut_tx_alive (ts ! t) = (Some t \<in> set slots) \<and> ut_woken (ts ! t) = (Some t \<notin> set slots))"

definition dp_inv :: "byte \<Rightarrow> 'm dns_proxy \<Rightarrow> bool" where
  "dp_inv max_upstream st \<longleftrightarrow> dp_max_upstream st = max_upstream
     \<and> length (dp_upstream st) = unat max_upstream \<and> slots_ok (dp_upstream st) (dp_tasks st)"

section \<open>Preservation\<close>

lemma slots_ok_cong:
  assumes "length ts' = length ts"
    and "\<And>t. t < length ts \<Longrightarrow> ut_running (ts' ! t) = ut_running (ts ! t)
        \<and> ut_tx_alive (ts' ! t) = ut_tx_alive (ts ! t) \<and> ut_woken (ts' ! t) = ut_woken (ts ! t)"
  shows "slots_ok slots ts' = slots_ok slots ts"
  using assms by (auto simp: slots_ok_def)

lemma slots_ok_update:
  assumes "\<And>u. ut_running (g u) = ut_running u \<and> ut_tx_alive (g u) = ut_tx_alive u \<and> ut_woken (g u) = ut_woken u"
  shows "slots_ok slots (ts[t := g (ts ! t)]) = slots_ok slots ts"
proof (rule slots_ok_cong)
  fix i assume "i < length ts"
  then show "ut_running (ts[t := g (ts ! t)] ! i) = ut_running (ts ! i)
      \<and> ut_tx_alive (ts[t := g (ts ! t)] ! i) = ut_tx_alive (ts ! i)
      \<and> ut_woken (ts[t := g (ts ! t)] ! i) = ut_woken (ts ! i)"
    using assms [of "ts ! t"] by (cases "i = t") auto
qed simp

lemma slots_okD:
  assumes "slots_ok slots ts" "i < length slots" "slots ! i = Some t"
  shows "t < length ts" "\<And>j. j < length slots \<Longrightarrow> slots ! j = Some t \<Longrightarrow> j = i"
  using assms unfolding slots_ok_def by blast+

lemma slot_member_update:
  assumes "slots_ok slots ts" "i < length slots" "t \<noteq> n"
  shows "Some t \<in> set (slots[i := Some n]) \<longleftrightarrow> Some t \<in> set slots \<and> slots ! i \<noteq> Some t"
proof
  assume "Some t \<in> set (slots[i := Some n])"
  then obtain j where j: "j < length slots" "slots[i := Some n] ! j = Some t" by (auto simp: in_set_conv_nth)
  have "j \<noteq> i" using assms(2,3) j(2) by (cases "j = i") auto
  then have "slots ! j = Some t" using j(2) by simp
  then show "Some t \<in> set slots \<and> slots ! i \<noteq> Some t"
    using slots_okD(2) [OF assms(1) j(1), of t i] assms(2) \<open>j \<noteq> i\<close> nth_mem [OF j(1)] by auto
next
  assume m: "Some t \<in> set slots \<and> slots ! i \<noteq> Some t"
  then obtain j where j: "j < length slots" "slots ! j = Some t" by (auto simp: in_set_conv_nth)
  with m have "j \<noteq> i" by auto
  with j have "slots[i := Some n] ! j = Some t" by simp
  with j(1) show "Some t \<in> set (slots[i := Some n])" using nth_mem [of j "slots[i := Some n]"] by simp
qed

lemma drop_sender_nth:
  "t < length ts \<Longrightarrow> drop_sender slot ts ! t = (if slot = Some t then stop_task (ts ! t) else ts ! t)"
  by (auto simp: drop_sender_def split: option.split)

lemma drop_sender_length [simp]: "length (drop_sender slot ts) = length ts"
  by (simp add: drop_sender_def split: option.split)

lemma slots_ok_replace:
  assumes ok: "slots_ok slots ts" and i: "i < length slots"
    and task: "ut_running task" "ut_tx_alive task" "\<not> ut_woken task"
  shows "slots_ok (slots[i := Some (length ts)]) (drop_sender (slots ! i) ts @ [task])"
  unfolding slots_ok_def
proof (intro conjI allI impI)
  let ?slots = "slots[i := Some (length ts)]" and ?ts = "drop_sender (slots ! i) ts @ [task]"
  fix j t assume j: "j < length ?slots" "?slots ! j = Some t"
  have old: "slots ! k = Some u \<Longrightarrow> k < length slots \<Longrightarrow> u < length ts" for k u
    using ok by (auto simp: slots_ok_def)
  show "t < length ?ts" using j i old [of j t] by (cases "j = i") auto
  show "k = j" if "k < length ?slots" "?slots ! k = Some t" for k
    using j that i old [of k t] old [of j t] slots_okD(2) [OF ok, of j t k]
    by (cases "j = i"; cases "k = i") auto
next
  let ?slots = "slots[i := Some (length ts)]" and ?ts = "drop_sender (slots ! i) ts @ [task]"
  fix t assume t: "t < length ?ts"
  have "ut_running (?ts ! t) = (Some t \<in> set ?slots) \<and> ut_tx_alive (?ts ! t) = (Some t \<in> set ?slots)
      \<and> ut_woken (?ts ! t) = (Some t \<notin> set ?slots)"
  proof (cases "t = length ts")
    case True
    have "Some (length ts) \<in> set ?slots" using i by (metis length_list_update nth_list_update_eq nth_mem)
    with True task show ?thesis by (simp add: nth_append)
  next
    case False
    with t have t: "t < length ts" by simp
    then have "ut_running (ts ! t) = (Some t \<in> set slots) \<and> ut_tx_alive (ts ! t) = (Some t \<in> set slots)
        \<and> ut_woken (ts ! t) = (Some t \<notin> set slots)" using ok by (simp add: slots_ok_def)
    with t slot_member_update [OF ok i, of t "length ts"] show ?thesis
      by (auto simp: nth_append drop_sender_nth stop_task_def)
  qed
  then show "ut_running (?ts ! t) = (Some t \<in> set ?slots)" "ut_tx_alive (?ts ! t) = (Some t \<in> set ?slots)"
    "ut_woken (?ts ! t) = (Some t \<notin> set ?slots)" by simp_all
qed

lemma fold_drop_sender:
  "length (fold drop_sender slots ts) = length ts"
  "t < length ts \<Longrightarrow> fold drop_sender slots ts ! t = (if Some t \<in> set slots then stop_task (ts ! t) else ts ! t)"
  by (induction slots arbitrary: ts) (auto simp: drop_sender_nth stop_task_def)

lemma dns_clear_inv: "dp_inv n st \<Longrightarrow> dp_inv n (dns_clear st)"
proof -
  assume inv: "dp_inv n st"
  then have ok: "slots_ok (dp_upstream st) (dp_tasks st)" by (simp add: dp_inv_def)
  have "Some t \<notin> set (map (\<lambda>_. None) (dp_upstream st))" for t :: nat by auto
  then have "slots_ok (map (\<lambda>_. None) (dp_upstream st)) (fold drop_sender (dp_upstream st) (dp_tasks st))"
    using ok by (auto simp: slots_ok_def fold_drop_sender stop_task_def)
  with inv show ?thesis by (simp add: dp_inv_def dns_clear_def)
qed

lemma start_upstream_inv:
  assumes "dp_inv n st" "i < length (dp_upstream st)"
    and "start_upstream env now i src dest msg st = (r, port, st')"
  shows "dp_inv n st'"
  using assms slots_ok_replace [of "dp_upstream st" "dp_tasks st" i]
  by (auto simp: start_upstream_def dp_inv_def Let_def split: prod.splits result.splits)

lemma commit_port_inv: "commit_port (r, port, st) = (r', st') \<Longrightarrow> dp_inv n st \<Longrightarrow> dp_inv n st'"
  by (auto simp: commit_port_def dp_inv_def split: result.splits)

lemma dns_proxy_send_inv:
  assumes "dp_inv n st"
  shows "dp_inv n (snd (dns_proxy_send env now src dest msg st))"
proof (cases "n = 0")
  case True
  with assms show ?thesis by (auto simp: dns_proxy_send_def dp_inv_def)
next
  case False
  let ?i = "dp_idx st mod unat n" and ?st = "st\<lparr>dp_idx := dp_idx st + 1, dp_session_clear := False\<rparr>"
  have i: "?i < length (dp_upstream ?st)" and st: "dp_inv n ?st"
    using assms False by (simp_all add: dp_inv_def unat_gt_0)
  obtain r port st' where s: "start_upstream env now ?i src dest msg ?st = (r, port, st')" by (metis prod_cases3)
  obtain r2 st2 where c: "commit_port (r, port, st') = (r2, st2)" by fastforce
  note inv = commit_port_inv [OF c start_upstream_inv [OF st i s]]
  have q: "slots_ok (dp_upstream st) (enqueue t pm (dp_tasks st)) = slots_ok (dp_upstream st) (dp_tasks st)" for t pm
    unfolding enqueue_def by (rule slots_ok_update) simp
  show ?thesis
    using assms False i s c inv q
    by (auto simp: dns_proxy_send_def dp_inv_def Let_def split: option.splits)
qed

lemma on_task_inv:
  assumes "dp_inv n st" "\<And>u. ut_running (g u) = ut_running u \<and> ut_tx_alive (g u) = ut_tx_alive u \<and> ut_woken (g u) = ut_woken u"
  shows "dp_inv n (on_task g t st)"
  using assms(1) slots_ok_update [of g "dp_upstream st" "dp_tasks st" t] assms(2) by (simp add: dp_inv_def on_task_def)

lemma proxy_step_inv: "dp_inv n s \<Longrightarrow> proxy_step env timeout s ev t \<Longrightarrow> dp_inv n t"
  by (cases ev) (auto simp: proxy_step_def dns_proxy_send_inv dns_clear_inv intro!: on_task_inv, auto simp: dp_inv_def)

lemma dns_proxy_new_inv: "dp_inv n (dns_proxy_new n port)"
  by (auto simp: dp_inv_def dns_proxy_new_def slots_ok_def)

interpretation proxy: invariant_system "dns_proxy_new n port" "proxy_step env timeout" "dp_inv n"
  for n :: byte and port :: u16 and env timeout
  by unfold_locales (auto intro: proxy_step_inv dns_proxy_new_inv)

section \<open>Properties\<close>


lemma replicate_3: "replicate 3 x = [x, x, x]"
  by (simp add: numeral_3_eq_3)

text \<open>An environment in which every call succeeds.\<close>

definition sample_env :: "dns_upstream_proto \<Rightarrow> proxy_env" where
  "sample_env proto = \<lparr>pe_plat = Linux, pe_os = sample_os, pe_ifaces = [''eth0''], pe_keepalive = (600, 60, 5),
     pe_proto = proto, pe_connect = (\<lambda>_. Some (Ok ()))\<rparr>"

definition sample_dest :: "byte \<Rightarrow> socket_addr" where
  "sample_dest n = V4 \<lparr>v4_ip = Ipv4Addr 9 9 9 n, v4_port = 53\<rparr>"

lemma sample_open:
  "open_udp (sample_env p) now (sample_dest n) 10880 cache = (Ok (), 10881, cache)"
  by (simp add: open_udp_def sample_env_def create_outbound_udp_socket_def socket_new_def bind_local_def
      set_nonblocking_def set_ip_bound_if_def set_ip_bound_if_linux_def sys_def sample_os_def)

lemma sample_open_tcp:
  "open_tcp (sample_env p) now (sample_dest n) port cache = (Ok (), port, cache)"
  by (simp add: open_tcp_def sample_env_def create_outbound_tcp_socket_def socket_new_def set_keepalive_def
      set_nonblocking_def set_ip_bound_if_def set_ip_bound_if_linux_def sys_def sample_os_def)


text \<open>
  C23: a query that is accepted is queued, with its source and destination, as the last message of
  the connection in slot \<open>idx mod max_upstream\<close>, whose sending future is there to take it; the other
  slots keep their connections and the next query goes to the next slot.
\<close>

theorem dns_proxy_send_queued:
  assumes "dp_inv n st" "dns_proxy_send env now src dest msg st = (Ok u, st')"
  shows "\<exists>t. dp_upstream st' = (dp_upstream st)[dp_idx st mod unat n := Some t] \<and> t < length (dp_tasks st')
    \<and> ut_rx_alive (dp_tasks st' ! t)
    \<and> (\<exists>q. ut_queue (dp_tasks st' ! t) = q @ [(\<lparr>peer_src = src, peer_dest = dest\<rparr>, msg)])
    \<and> dp_idx st' = Suc (dp_idx st)"
proof -
  have n: "n \<noteq> 0" using assms by (auto simp: dns_proxy_send_def dp_inv_def)
  let ?i = "dp_idx st mod unat n" and ?st = "st\<lparr>dp_idx := dp_idx st + 1, dp_session_clear := False\<rparr>"
  have i: "?i < length (dp_upstream st)" and max: "dp_max_upstream st = n"
    using assms(1) n by (simp_all add: dp_inv_def unat_gt_0)
  have start: ?thesis if "commit_port (start_upstream env now ?i src dest msg ?st) = (Ok u, st')"
    using that i
    by (auto simp: commit_port_def start_upstream_def Let_def nth_append split: result.splits prod.splits
        dns_upstream_proto.splits)
  show ?thesis
  proof (cases "\<exists>t. dp_upstream st ! ?i = Some t \<and> ut_rx_alive (dp_tasks st ! t)")
    case True
    then obtain t where t: "dp_upstream st ! ?i = Some t" "ut_rx_alive (dp_tasks st ! t)" by blast
    have "t < length (dp_tasks st)" using slots_okD(1) [of _ "dp_tasks st", OF _ i t(1)] assms(1) by (simp add: dp_inv_def)
    moreover have "(dp_upstream st)[?i := Some t] = dp_upstream st" using t(1) by (metis list_update_id)
    ultimately show ?thesis
      using assms(2) t n i max
      by (intro exI [of _ t]) (auto simp: dns_proxy_send_def Let_def enqueue_def)
  next
    case False
    with assms(2) n i max have "commit_port (start_upstream env now ?i src dest msg ?st) = (Ok u, st')"
      by (auto simp: dns_proxy_send_def Let_def split: option.splits if_splits)
    then show ?thesis by (rule start)
  qed
qed

theorem dns_proxy_send_queued_witness:
  "\<exists>st' t. dns_proxy_send (sample_env Udp) 0 (sample_dest 1) (sample_dest 2) sample_new (dns_proxy_new 3 10880) = (Ok (), st')
     \<and> dp_upstream st' = [Some t, None, None] \<and> ut_rx_alive (dp_tasks st' ! t)"
proof -
  have "fst (dns_proxy_send (sample_env Udp) 0 (sample_dest 1) (sample_dest 2) sample_new (dns_proxy_new 3 10880)) = Ok ()"
    by (simp add: dns_proxy_new_def dns_proxy_send_def Let_def commit_port_def start_upstream_def
        sample_open) (simp add: sample_env_def sample_open [unfolded sample_env_def])
  then obtain st' where s: "dns_proxy_send (sample_env Udp) 0 (sample_dest 1) (sample_dest 2) sample_new
      (dns_proxy_new 3 10880) = (Ok (), st')" by (metis prod.collapse)
  from dns_proxy_send_queued [OF dns_proxy_new_inv s] obtain t where
    "dp_upstream st' = (dp_upstream (dns_proxy_new 3 10880 :: sample_msg dns_proxy))[0 := Some t]" "ut_rx_alive (dp_tasks st' ! t)"
    by (auto simp: dns_proxy_new_def)
  moreover have "(dp_upstream (dns_proxy_new 3 10880 :: sample_msg dns_proxy))[0 := Some t] = [Some t, None, None]"
    by (simp add: dns_proxy_new_def replicate_3)
  ultimately show ?thesis using s by metis
qed



text \<open>
  C25: over TCP a connection is reused for any destination: a query for one server that falls on a
  slot whose connection was opened to another server is queued on that connection, so it is sent to
  the wrong server.
\<close>

theorem dns_proxy_tcp_wrong_server:
  assumes "dp_inv n st" "n \<noteq> 0" "dp_upstream st ! (dp_idx st mod unat n) = Some t"
    and "ut_rx_alive (dp_tasks st ! t)" "ut_proto (dp_tasks st ! t) = Tcp" "ut_dest (dp_tasks st ! t) \<noteq> dest"
    and "dns_proxy_send env now src dest msg st = (r, st')"
  shows "r = Ok () \<and> ut_dest (dp_tasks st' ! t) \<noteq> dest
    \<and> last (ut_queue (dp_tasks st' ! t)) = (\<lparr>peer_src = src, peer_dest = dest\<rparr>, msg)
    \<and> length (dp_tasks st') = length (dp_tasks st)"
proof -
  have i: "dp_idx st mod unat n < length (dp_upstream st)" and max: "dp_max_upstream st = n"
    using assms(1,2) by (simp_all add: dp_inv_def unat_gt_0)
  have "t < length (dp_tasks st)" using slots_okD(1) [of _ "dp_tasks st", OF _ i assms(3)] assms(1) by (simp add: dp_inv_def)
  with assms i max show ?thesis by (auto simp: dns_proxy_send_def Let_def enqueue_def)
qed

definition busy_proxy :: "sample_msg dns_proxy" where
  "busy_proxy = snd (dns_proxy_send (sample_env Tcp) 0 (sample_dest 1) (sample_dest 2) sample_new (dns_proxy_new 1 10880))"

lemma busy_proxy_state:
  "dp_upstream busy_proxy = [Some 0]" "ut_rx_alive (dp_tasks busy_proxy ! 0)" "ut_proto (dp_tasks busy_proxy ! 0) = Tcp"
  "ut_dest (dp_tasks busy_proxy ! 0) = sample_dest 2"
  by (simp_all add: busy_proxy_def dns_proxy_new_def dns_proxy_send_def Let_def commit_port_def start_upstream_def
      drop_sender_def sample_open_tcp)
    (simp_all add: sample_env_def sample_open_tcp [unfolded sample_env_def] drop_sender_def)

theorem dns_proxy_tcp_wrong_server_witness:
  "ut_dest (dp_tasks (snd (dns_proxy_send (sample_env Tcp) 1 (sample_dest 1) (sample_dest 3) sample_new busy_proxy)) ! 0)
     \<noteq> sample_dest 3"
proof -
  have inv: "dp_inv 1 busy_proxy" unfolding busy_proxy_def by (intro dns_proxy_send_inv dns_proxy_new_inv)
  obtain r st' where s: "dns_proxy_send (sample_env Tcp) 1 (sample_dest 1) (sample_dest 3) sample_new busy_proxy = (r, st')"
    by fastforce
  from dns_proxy_tcp_wrong_server [OF inv _ _ _ _ _ s, of 0] busy_proxy_state s show ?thesis
    by (simp add: sample_dest_def)
qed

end
