(* ===== verification/Cancelable.thy ===== *)
theory Cancelable
  imports Rtun_Prelude
begin

text \<open>
  \<open>crates/tun/src/cancelable.rs\<close>: a future or stream that a handle can cancel. First the methods as
  functions, each taken as one step; then the same methods cut into their atomic actions (the load
  of the flag, the poll of the inner future, the registration of the waker; the store of the flag,
  the wake), which two threads interleave. The inner future is the list of its coming answers,
  after which it answers \<open>Pending\<close>. An \<open>AtomicWaker\<close> is whether a waker is registered; \<open>cn_woken\<close> says
  that the task was woken.
\<close>

section \<open>The methods\<close>

datatype 'a cancelable_result = CResult 'a | Cancelled

record 'a cancelable =
  cn_inner :: "'a poll list"
  cn_cancelled :: bool
  cn_waker :: bool
  cn_woken :: bool

definition cancelable_new :: "'a poll list \<Rightarrow> 'a cancelable" where
  "cancelable_new inner = \<lparr>cn_inner = inner, cn_cancelled = False, cn_waker = False, cn_woken = False\<rparr>"

definition poll_inner :: "'a cancelable \<Rightarrow> 'a poll \<times> 'a cancelable" where
  "poll_inner c = (case cn_inner c of [] \<Rightarrow> (Pending, c) | p # ps \<Rightarrow> (p, c\<lparr>cn_inner := ps\<rparr>))"

definition wake_task :: "'a cancelable \<Rightarrow> 'a cancelable" where
  "wake_task c = (if cn_waker c then c\<lparr>cn_waker := False, cn_woken := True\<rparr> else c)"

definition cancel :: "'a cancelable \<Rightarrow> 'a cancelable" where
  "cancel c = wake_task (c\<lparr>cn_cancelled := True\<rparr>)"

definition drop_handle :: "'a cancelable \<Rightarrow> 'a cancelable" where
  "drop_handle c = cancel c"

definition cancelable_poll :: "'a cancelable \<Rightarrow> 'a cancelable_result poll \<times> 'a cancelable" where
  "cancelable_poll c =
     (if cn_cancelled c then (Ready Cancelled, c)
      else
        (case poll_inner c of
           (Ready res, c') \<Rightarrow> (Ready (CResult res), c')
         | (Pending, c') \<Rightarrow> (Pending, c'\<lparr>cn_waker := True\<rparr>)))"

text \<open>\<open>Stream::poll_next\<close>: the inner answers are optional items.\<close>

definition cancelable_poll_next ::
    "'a option cancelable \<Rightarrow> 'a cancelable_result option poll \<times> 'a option cancelable" where
  "cancelable_poll_next c =
     (if cn_cancelled c then (Ready (Some Cancelled), c)
      else
        (case poll_inner c of
           (Ready (Some r), c') \<Rightarrow> (Ready (Some (CResult r)), c')
         | (Ready None, c') \<Rightarrow> (Ready None, c')
         | (Pending, c') \<Rightarrow> (Pending, c'\<lparr>cn_waker := True\<rparr>)))"

section \<open>The atomic actions\<close>

datatype 'a task_pc = TIdle | TLoaded | TPolled | TParked | TDone "'a cancelable_result"
datatype handle_pc = HIdle | HStored | HDone

record 'a cancel_sys =
  cs_task :: "'a task_pc"
  cs_handle :: handle_pc
  cs_shared :: "'a cancelable"

datatype cancel_action = ALoad | AInner | ARegister | AResume | AStore | AWake

text \<open>A parked task is polled again when it was woken.\<close>

inductive cancel_step :: "'a cancel_sys \<Rightarrow> cancel_action \<Rightarrow> 'a cancel_sys \<Rightarrow> bool" where
  load_set: "cs_task s = TIdle \<Longrightarrow> cn_cancelled (cs_shared s) \<Longrightarrow>
    cancel_step s ALoad (s\<lparr>cs_task := TDone Cancelled\<rparr>)"
| load_clear: "cs_task s = TIdle \<Longrightarrow> \<not> cn_cancelled (cs_shared s) \<Longrightarrow>
    cancel_step s ALoad (s\<lparr>cs_task := TLoaded\<rparr>)"
| inner_ready: "cs_task s = TLoaded \<Longrightarrow> poll_inner (cs_shared s) = (Ready r, c) \<Longrightarrow>
    cancel_step s AInner (s\<lparr>cs_task := TDone (CResult r), cs_shared := c\<rparr>)"
| inner_pending: "cs_task s = TLoaded \<Longrightarrow> poll_inner (cs_shared s) = (Pending, c) \<Longrightarrow>
    cancel_step s AInner (s\<lparr>cs_task := TPolled, cs_shared := c\<rparr>)"
| register: "cs_task s = TPolled \<Longrightarrow>
    cancel_step s ARegister (s\<lparr>cs_task := TParked, cs_shared := (cs_shared s)\<lparr>cn_waker := True\<rparr>\<rparr>)"
| resume: "cs_task s = TParked \<Longrightarrow> cn_woken (cs_shared s) \<Longrightarrow>
    cancel_step s AResume (s\<lparr>cs_task := TIdle, cs_shared := (cs_shared s)\<lparr>cn_woken := False\<rparr>\<rparr>)"
| store: "cs_handle s = HIdle \<Longrightarrow>
    cancel_step s AStore (s\<lparr>cs_handle := HStored, cs_shared := (cs_shared s)\<lparr>cn_cancelled := True\<rparr>\<rparr>)"
| wake: "cs_handle s = HStored \<Longrightarrow>
    cancel_step s AWake (s\<lparr>cs_handle := HDone, cs_shared := wake_task (cs_shared s)\<rparr>)"

inductive_cases cancel_stepE: "cancel_step s a t"
inductive_simps cancel_step_load: "cancel_step s ALoad t"
inductive_simps cancel_step_inner: "cancel_step s AInner t"
inductive_simps cancel_step_register: "cancel_step s ARegister t"
inductive_simps cancel_step_resume: "cancel_step s AResume t"
inductive_simps cancel_step_store: "cancel_step s AStore t"
inductive_simps cancel_step_wake: "cancel_step s AWake t"

lemmas cancel_step_simps = cancel_step_load cancel_step_inner cancel_step_register cancel_step_resume
  cancel_step_store cancel_step_wake

definition cancel_init :: "'a poll list \<Rightarrow> 'a cancel_sys" where
  "cancel_init inner = \<lparr>cs_task = TIdle, cs_handle = HIdle, cs_shared = cancelable_new inner\<rparr>"

text \<open>
  The invariant: the flag is set exactly after the store; a task ends as cancelled only then; a
  parked task is registered or woken; and a wake only happens after the store.
\<close>

definition cancel_inv :: "'a cancel_sys \<Rightarrow> bool" where
  "cancel_inv s \<longleftrightarrow>
     cn_cancelled (cs_shared s) = (cs_handle s \<noteq> HIdle)
   \<and> (cs_task s = TDone Cancelled \<longrightarrow> cs_handle s \<noteq> HIdle)
   \<and> (cs_task s = TParked \<longrightarrow> cn_waker (cs_shared s) \<or> cn_woken (cs_shared s))
   \<and> (cn_woken (cs_shared s) \<longrightarrow> cs_handle s = HDone)"

lemma poll_inner_frame:
  assumes "poll_inner c = (p, c')"
  shows "cn_cancelled c' = cn_cancelled c" "cn_waker c' = cn_waker c" "cn_woken c' = cn_woken c"
  using assms by (auto simp: poll_inner_def split: list.splits)

lemma cancel_step_inv: "cancel_inv s \<Longrightarrow> cancel_step s a t \<Longrightarrow> cancel_inv t"
  by (erule cancel_stepE) (auto simp: cancel_inv_def wake_task_def poll_inner_frame split: if_splits)

lemma cancel_init_inv: "cancel_inv (cancel_init inner)"
  by (simp add: cancel_inv_def cancel_init_def cancelable_new_def)

interpretation cancel_race: invariant_system "cancel_init inner" cancel_step cancel_inv for inner :: "'a poll list"
  by unfold_locales (auto intro: cancel_step_inv cancel_init_inv)

section \<open>Properties\<close>

text \<open>
  A cancellation between two polls is seen. After a pending poll, cancelling or dropping the
  handle wakes the task, and the next poll returns \<open>Cancelled\<close> without touching the inner future.
\<close>

theorem cancel_seen:
  assumes "cancelable_poll c = (Pending, c')"
  shows "cn_woken (cancel c') \<and> cancelable_poll (cancel c') = (Ready Cancelled, cancel c')
    \<and> cn_inner (cancel c') = cn_inner c' \<and> drop_handle c' = cancel c'"
proof -
  have "cn_waker c'" using assms by (auto simp: cancelable_poll_def split: if_splits prod.splits poll.splits)
  then show ?thesis by (simp add: cancel_def wake_task_def cancelable_poll_def drop_handle_def)
qed

theorem cancel_seen_witness:
  "cn_woken (cancel (snd (cancelable_poll (cancelable_new [Pending, Ready (5 :: nat)]))))"
  using cancel_seen [of "cancelable_new [Pending, Ready (5 :: nat)]"]
  by (simp add: cancelable_poll_def cancelable_new_def poll_inner_def)

text \<open>
  Under every interleaving a task ends as cancelled only when the handle was used, and the wake
  of a cancellation is lost exactly in the states where the task is parked with its waker still
  registered after the handle is done. No action of either side is then possible any more.
\<close>

theorem cancel_interleavings:
  assumes "reachable (cancel_init inner) cancel_step s"
  shows "(cs_task s = TDone Cancelled \<longrightarrow> cs_handle s \<noteq> HIdle)
    \<and> (cs_task s = TParked \<and> cs_handle s = HDone \<and> cn_waker (cs_shared s) \<and> \<not> cn_woken (cs_shared s)
       \<longleftrightarrow> cs_task s = TParked \<and> cn_cancelled (cs_shared s) \<and> (\<nexists>a t. cancel_step s a t))"
proof -
  have inv: "cancel_inv s" using cancel_race.invar_reachable [OF assms] .
  have "(\<nexists>a t. cancel_step s a t) \<longleftrightarrow> cs_handle s = HDone \<and> \<not> cn_woken (cs_shared s)" if "cs_task s = TParked"
  proof
    assume stuck: "\<nexists>a t. cancel_step s a t"
    have "cs_handle s = HDone"
      using stuck store [of s] wake [of s] by (cases "cs_handle s") blast+
    with stuck resume [OF that] show "cs_handle s = HDone \<and> \<not> cn_woken (cs_shared s)" by blast
  next
    assume "cs_handle s = HDone \<and> \<not> cn_woken (cs_shared s)"
    with that show "\<nexists>a t. cancel_step s a t" by (auto elim!: cancel_stepE)
  qed
  with inv show ?thesis by (auto simp: cancel_inv_def)
qed

theorem cancel_interleavings_witness:
  "\<exists>s. reachable (cancel_init [Ready (5 :: nat)]) cancel_step s \<and> cs_task s = TDone (CResult 5)
     \<and> \<not> (cs_task s = TDone Cancelled \<and> cs_handle s = HIdle)"
proof -
  let ?s0 = "cancel_init [Ready (5 :: nat)]"
  let ?s1 = "?s0\<lparr>cs_task := TLoaded\<rparr>"
  let ?s2 = "?s1\<lparr>cs_task := TDone (CResult 5), cs_shared := cancelable_new []\<rparr>"
  have "cancel_step ?s0 ALoad ?s1"
    by (rule load_clear) (simp_all add: cancel_init_def cancelable_new_def)
  moreover have "cancel_step ?s1 AInner ?s2"
    by (rule inner_ready) (simp_all add: cancel_init_def cancelable_new_def poll_inner_def)
  ultimately have r: "reachable ?s0 cancel_step ?s2" by (blast intro: reach_init reach_step)
  from r cancel_interleavings [OF r] show ?thesis by auto
qed


end
