(* ===== verification/Notify.thy ===== *)
theory Notify
  imports Rtun_Prelude
begin

text \<open>
  The notification of an address change. The TCP and the UDP handler each have a task that waits on a
  broadcast channel and clears its table at every message; a receiver that was too slow gets an
  error that says so and goes on, a closed channel ends the task. The channel is not code of the
  repository: it is the list of its coming answers. The contract of such a task is stated once, as
  a locale that both handlers interpret.
\<close>

datatype notify_answer = Notified | Lagged | ChannelClosed

text \<open>
  The loop of the task over an operation that clears the table and says whether the task goes on.
  The first component of the result says whether the task still waits.
\<close>

fun clear_loop :: "('h \<Rightarrow> bool \<times> 'h) \<Rightarrow> notify_answer list \<Rightarrow> 'h \<Rightarrow> bool \<times> 'h" where
  "clear_loop clr [] h = (True, h)"
| "clear_loop clr (Notified # as) h =
     (case clr h of (goes_on, h') \<Rightarrow> if goes_on then clear_loop clr as h' else (False, h'))"
| "clear_loop clr (Lagged # as) h = clear_loop clr as h"
| "clear_loop clr (ChannelClosed # as) h = (False, h)"

locale clearing =
  fixes ok :: "'h \<Rightarrow> bool" and cleared :: "'h \<Rightarrow> bool" and clr :: "'h \<Rightarrow> bool \<times> 'h"
  assumes clr_ok: "ok h \<Longrightarrow> ok (snd (clr h))"
    and clr_cleared: "ok h \<Longrightarrow> cleared (snd (clr h))"
begin

lemma loop_ok: "ok h \<Longrightarrow> ok (snd (clear_loop clr as h))"
proof (induction as arbitrary: h)
  case (Cons a as)
  then show ?case using clr_ok [of h] by (cases a) (auto split: prod.split)
qed simp

lemma loop_keeps_cleared: "ok h \<Longrightarrow> cleared h \<Longrightarrow> cleared (snd (clear_loop clr as h))"
proof (induction as arbitrary: h)
  case (Cons a as)
  then show ?case using clr_ok [of h] clr_cleared [of h] by (cases a) (auto split: prod.split)
qed simp

text \<open>A message that comes before the channel is closed is acted upon, however many are missed.\<close>

lemma loop_clears:
  "ok h \<Longrightarrow> ChannelClosed \<notin> set before \<Longrightarrow> cleared (snd (clear_loop clr (before @ Notified # after) h))"
proof (induction before arbitrary: h)
  case Nil
  then show ?case using clr_ok [of h] clr_cleared [of h] loop_keeps_cleared [of "snd (clr h)" after]
    by (auto split: prod.split)
next
  case (Cons a before)
  then show ?case using clr_ok [of h] clr_cleared [of h] by (cases a) (auto split: prod.split)
qed

end

end
