(* ===== verification/Tcp.thy ===== *)
theory Tcp
  imports Fake_Dns Socks5 Copy Net_Sys Cancelable Notify
begin

text \<open>
  \<open>crates/tun/src/tcp.rs\<close>: a TCP stream from the tunnel is connected to its destination, through the
  SOCKS5 proxy when the destination is a fake address and directly otherwise, copied in both
  directions, and listed in the table of connections while it is copied. The decision and the
  connecting are functions; the life of many connections, which are tasks of their own, is a step
  relation on the table. A handle in the table stands for the right to cancel its connection;
  removing or overwriting an entry drops the handle, which cancels it. Connecting, the operating
  system and whether a connect outlasts its timeout are parameters.
\<close>

section \<open>Connecting\<close>

record tcp_env =
  te_plat :: platform
  te_os :: os_env
  te_ifaces :: "string list"
  te_keepalive :: "u64 \<times> u64 \<times> u32"
  te_socks5_addr :: socket_addr
  te_link_buffer_size :: nat
  te_link_copy_timeout :: nat

datatype conn_target = ViaSocks5 string u16 | Direct socket_addr

text \<open>
  How connecting turns out: \<open>TcpStream::connect\<close> to the proxy, \<open>TcpSocket::connect\<close> to a destination,
  and whether the whole attempt outlasts \<open>OUTBOUND_CONNECT_TIMEOUT\<close>.
\<close>

record tcp_net =
  tn_connect :: "socket_addr \<Rightarrow> duplex io_result"
  tn_socket_connect :: "socket_addr \<Rightarrow> duplex io_result"
  tn_times_out :: "conn_target \<Rightarrow> bool"

datatype tcp_fail = CreateSocketError io_error | ConnectError io_error | ConnectTimeout

definition choose_target :: "fake_dns \<Rightarrow> socket_addr \<Rightarrow> conn_target" where
  "choose_target fd dst_addr =
     (case dst_addr of
        V4 addr \<Rightarrow>
          (case query_domain fd (ipv4_to_bits (v4_ip addr)) of
             Some s \<Rightarrow> ViaSocks5 s (v4_port addr)
           | None \<Rightarrow> Direct dst_addr)
      | V6 _ \<Rightarrow> Direct dst_addr)"

definition connect_target :: "tcp_env \<Rightarrow> tcp_net \<Rightarrow> conn_target \<Rightarrow> duplex io_result" where
  "connect_target env net tgt =
     (case tgt of
        ViaSocks5 s port \<Rightarrow> sock5_connect (tn_connect net) (Domain s port) (te_socks5_addr env)
      | Direct dst \<Rightarrow> tn_socket_connect net dst)"

definition tcp_open ::
    "tcp_env \<Rightarrow> tcp_net \<Rightarrow> fake_dns \<Rightarrow> nat \<Rightarrow> socket_addr \<Rightarrow> index_cache
     \<Rightarrow> (duplex, tcp_fail) result \<times> index_cache" where
  "tcp_open env net fd now dst_addr cache =
     (case create_outbound_tcp_socket (te_plat env) (te_os env) now (te_ifaces env) (te_keepalive env) dst_addr cache of
        (Err e, cache') \<Rightarrow> (Err (CreateSocketError e), cache')
      | (Panic m, cache') \<Rightarrow> (Panic m, cache')
      | (Ok _, cache') \<Rightarrow>
        (let tgt = choose_target fd dst_addr in
         if tn_times_out net tgt then (Err ConnectTimeout, cache')
         else
           (case connect_target env net tgt of
              Ok c \<Rightarrow> (Ok c, cache')
            | Err e \<Rightarrow> (Err (ConnectError e), cache')
            | Panic m \<Rightarrow> (Panic m, cache'))))"

text \<open>The copy between the connection and the stream of the tunnel, with the configured sizes.\<close>

definition tcp_copy ::
    "tcp_env \<Rightarrow> endpoint \<Rightarrow> endpoint \<Rightarrow> nat list \<Rightarrow> (u64 \<times> u64) io_result poll \<times> copy_bidir" where
  "tcp_copy env proxy_conn tcp_stream nows =
     copy_bidirectional_with_timeout proxy_conn tcp_stream (te_link_buffer_size env * 1024)
       (te_link_copy_timeout env * 1000) nows"

section \<open>The stream through the proxy\<close>

text \<open>
  \<open>Sock5TcpStream\<close> after the handshake, the connection the copy of a proxied stream works on: every
  method hands the call to the TCP stream inside.
\<close>

record sock5_tcp_stream =
  s5_stream :: endpoint

definition on_stream :: "(endpoint \<Rightarrow> 'r \<times> endpoint) \<Rightarrow> sock5_tcp_stream \<Rightarrow> 'r \<times> sock5_tcp_stream" where
  "on_stream call self = (case call (s5_stream self) of (r, stream) \<Rightarrow> (r, self\<lparr>s5_stream := stream\<rparr>))"

definition sock5_poll_read :: "nat \<Rightarrow> sock5_tcp_stream \<Rightarrow> bytes io_result poll \<times> sock5_tcp_stream" where
  "sock5_poll_read n = on_stream (poll_read n)"

definition sock5_poll_write :: "bytes \<Rightarrow> sock5_tcp_stream \<Rightarrow> nat io_result poll \<times> sock5_tcp_stream" where
  "sock5_poll_write bs = on_stream (poll_write bs)"

definition sock5_poll_flush :: "sock5_tcp_stream \<Rightarrow> unit io_result poll \<times> sock5_tcp_stream" where
  "sock5_poll_flush = on_stream poll_flush"

definition sock5_poll_shutdown :: "sock5_tcp_stream \<Rightarrow> unit io_result poll \<times> sock5_tcp_stream" where
  "sock5_poll_shutdown = on_stream poll_shutdown"

text \<open>
  The wrapper keeps the contract of the stream inside and records what it does, so the facts on
  polls carry over to it.
\<close>

lemma on_stream_eq: "on_stream call self = (r, self') \<longleftrightarrow>
    call (s5_stream self) = (r, s5_stream self')"
  by (cases self; cases self'; cases "call (s5_stream self)") (auto simp: on_stream_def)

lemma sock5_contract:
  assumes "endpoint_ok (s5_stream self)"
  shows "sock5_poll_read n self = (q, self') \<Longrightarrow> endpoint_ok (s5_stream self')
      \<and> delivered (s5_stream self') = delivered (s5_stream self) @ (case q of Ready (Ok bs) \<Rightarrow> bs | _ \<Rightarrow> [])
      \<and> (q = Pending \<longrightarrow> armed (s5_stream self'))"
    "sock5_poll_write bs self = (p, self') \<Longrightarrow> endpoint_ok (s5_stream self')
      \<and> accepted (s5_stream self') = accepted (s5_stream self) @ (case p of Ready (Ok n) \<Rightarrow> take n bs | _ \<Rightarrow> [])
      \<and> (p = Pending \<longrightarrow> armed (s5_stream self'))"
    "sock5_poll_shutdown self = (u, self') \<Longrightarrow> endpoint_ok (s5_stream self')
      \<and> closed (s5_stream self') = (closed (s5_stream self) \<or> u = Ready (Ok ())) \<and> (u = Pending \<longrightarrow> armed (s5_stream self'))"
  using assms poll_readD [of n "s5_stream self" q "s5_stream self'"] poll_writeD [of bs "s5_stream self" p "s5_stream self'"]
    poll_shutdownD [of "s5_stream self" u "s5_stream self'"]
  by (simp_all add: sock5_poll_read_def sock5_poll_write_def sock5_poll_shutdown_def on_stream_eq)

section \<open>The table of connections\<close>

type_synonym conn_key = "socket_addr \<times> socket_addr"

datatype conn_phase = Connecting | Copying | Closed

record tcp_conn =
  tc_key :: conn_key
  tc_phase :: conn_phase
  tc_cancelled :: bool

record tcp_handle =
  th_conns :: "tcp_conn list"
  th_connects :: "conn_key \<rightharpoonup> nat"
  th_clear_task :: bool

definition tcp_handle_new :: tcp_handle where
  "tcp_handle_new = \<lparr>th_conns = [], th_connects = Map.empty, th_clear_task = True\<rparr>"

definition set_phase :: "nat \<Rightarrow> conn_phase \<Rightarrow> tcp_conn list \<Rightarrow> tcp_conn list" where
  "set_phase c p cs = cs[c := (cs ! c)\<lparr>tc_phase := p\<rparr>]"

text \<open>Dropping the handle of an entry, if there is one.\<close>

definition drop_conn :: "nat option \<Rightarrow> tcp_conn list \<Rightarrow> tcp_conn list" where
  "drop_conn h cs = (case h of None \<Rightarrow> cs | Some c \<Rightarrow> cs[c := (cs ! c)\<lparr>tc_cancelled := True\<rparr>])"

definition tcp_spawn :: "conn_key \<Rightarrow> tcp_handle \<Rightarrow> tcp_handle" where
  "tcp_spawn key h = h\<lparr>th_clear_task := False,
     th_conns := th_conns h @ [\<lparr>tc_key = key, tc_phase = Connecting, tc_cancelled = False\<rparr>]\<rparr>"

definition tcp_give_up :: "nat \<Rightarrow> tcp_handle \<Rightarrow> tcp_handle" where
  "tcp_give_up c h = h\<lparr>th_conns := set_phase c Closed (th_conns h)\<rparr>"

definition tcp_insert :: "nat \<Rightarrow> tcp_handle \<Rightarrow> tcp_handle" where
  "tcp_insert c h =
     (let key = tc_key (th_conns h ! c) in
      h\<lparr>th_conns := set_phase c Copying (drop_conn (th_connects h key) (th_conns h)),
        th_connects := (th_connects h)(key \<mapsto> c)\<rparr>)"

definition tcp_remove :: "nat \<Rightarrow> tcp_handle \<Rightarrow> tcp_handle" where
  "tcp_remove c h =
     (let key = tc_key (th_conns h ! c) in
      h\<lparr>th_conns := set_phase c Closed (drop_conn (th_connects h key) (th_conns h)),
        th_connects := (th_connects h)(key := None)\<rparr>)"

text \<open>\<open>HashMap::clear\<close>: every handle is dropped; an entry is always under the key of its connection.\<close>

definition tcp_clear :: "tcp_handle \<Rightarrow> tcp_handle" where
  "tcp_clear h = h\<lparr>th_connects := Map.empty,
     th_conns := map (\<lambda>c. if th_connects h (tc_key (th_conns h ! c)) = Some c
                          then (th_conns h ! c)\<lparr>tc_cancelled := True\<rparr> else th_conns h ! c)
                     [0 ..< length (th_conns h)]\<rparr>"

text \<open>The task that clears the table on notifications.\<close>

definition tcp_clear_task :: "notify_answer list \<Rightarrow> tcp_handle \<Rightarrow> bool \<times> tcp_handle" where
  "tcp_clear_task = clear_loop (\<lambda>h. (True, tcp_clear h))"

text \<open>
  The steps: a new stream, a connection that fails or times out, one that is made, one whose copy
  ends by itself, one whose copy ends because it was cancelled, and the notification to clear.
\<close>

datatype tcp_event = TcpNew conn_key | TcpFailed nat | TcpConnected nat | TcpCopyEnds nat | TcpCancelled nat
  | TcpClear

inductive tcp_step :: "tcp_handle \<Rightarrow> tcp_event \<Rightarrow> tcp_handle \<Rightarrow> bool" where
  new: "tcp_step h (TcpNew key) (tcp_spawn key h)"
| failed: "c < length (th_conns h) \<Longrightarrow> tc_phase (th_conns h ! c) = Connecting \<Longrightarrow>
    tcp_step h (TcpFailed c) (tcp_give_up c h)"
| connected: "c < length (th_conns h) \<Longrightarrow> tc_phase (th_conns h ! c) = Connecting \<Longrightarrow>
    tcp_step h (TcpConnected c) (tcp_insert c h)"
| copy_ends: "c < length (th_conns h) \<Longrightarrow> tc_phase (th_conns h ! c) = Copying \<Longrightarrow> \<not> tc_cancelled (th_conns h ! c) \<Longrightarrow>
    tcp_step h (TcpCopyEnds c) (tcp_remove c h)"
| cancelled: "c < length (th_conns h) \<Longrightarrow> tc_phase (th_conns h ! c) = Copying \<Longrightarrow> tc_cancelled (th_conns h ! c) \<Longrightarrow>
    tcp_step h (TcpCancelled c) (tcp_remove c h)"
| clear: "tcp_step h TcpClear (tcp_clear h)"

inductive_cases tcp_stepE: "tcp_step h ev h'"
inductive_simps tcp_step_new: "tcp_step h (TcpNew key) h'"
inductive_simps tcp_step_connected: "tcp_step h (TcpConnected c) h'"
inductive_simps tcp_step_cancelled: "tcp_step h (TcpCancelled c) h'"

text \<open>
  The invariant: the entries of the table are exactly the connections that are being copied and
  were not cancelled, each under its own key; a connection is cancelled only while or after it is
  copied.
\<close>

definition tcp_inv :: "tcp_handle \<Rightarrow> bool" where
  "tcp_inv h \<longleftrightarrow>
     (\<forall>key c. th_connects h key = Some c \<longleftrightarrow>
        c < length (th_conns h) \<and> tc_key (th_conns h ! c) = key
        \<and> tc_phase (th_conns h ! c) = Copying \<and> \<not> tc_cancelled (th_conns h ! c))
   \<and> (\<forall>c < length (th_conns h). tc_phase (th_conns h ! c) = Connecting \<longrightarrow> \<not> tc_cancelled (th_conns h ! c))"

lemma drop_conn_nth:
  "c < length cs \<Longrightarrow> drop_conn h cs ! c = (if h = Some c then (cs ! c)\<lparr>tc_cancelled := True\<rparr> else cs ! c)"
  by (auto simp: drop_conn_def split: option.split)

lemma drop_conn_length [simp]: "length (drop_conn h cs) = length cs"
  by (simp add: drop_conn_def split: option.split)

lemma set_phase_nth:
  "k < length cs \<Longrightarrow> set_phase c p cs ! k = (if k = c then (cs ! k)\<lparr>tc_phase := p\<rparr> else cs ! k)"
  by (simp add: set_phase_def)

lemma set_phase_length [simp]: "length (set_phase c p cs) = length cs"
  by (simp add: set_phase_def)

lemmas conn_nth = drop_conn_nth set_phase_nth

lemma tcp_invD:
  assumes "tcp_inv h"
  shows "th_connects h key = Some c \<longleftrightarrow>
      c < length (th_conns h) \<and> tc_key (th_conns h ! c) = key
      \<and> tc_phase (th_conns h ! c) = Copying \<and> \<not> tc_cancelled (th_conns h ! c)"
    "c < length (th_conns h) \<Longrightarrow> tc_phase (th_conns h ! c) = Connecting \<Longrightarrow> \<not> tc_cancelled (th_conns h ! c)"
  using assms unfolding tcp_inv_def by blast+

lemma tcp_insert_inv:
  assumes "tcp_inv h" "c < length (th_conns h)" "tc_phase (th_conns h ! c) = Connecting"
  shows "tcp_inv (tcp_insert c h)"
  unfolding tcp_inv_def using assms(2,3)
  by (auto simp: tcp_insert_def Let_def conn_nth tcp_invD [OF assms(1)] split: if_splits)

lemma tcp_remove_inv:
  assumes "tcp_inv h" "c < length (th_conns h)" "tc_phase (th_conns h ! c) = Copying"
  shows "tcp_inv (tcp_remove c h)"
  unfolding tcp_inv_def using assms(2,3)
  by (auto simp: tcp_remove_def Let_def conn_nth tcp_invD [OF assms(1)] split: if_splits)

lemma tcp_clear_inv:
  assumes "tcp_inv h"
  shows "tcp_inv (tcp_clear h)"
  unfolding tcp_inv_def by (auto simp: tcp_clear_def tcp_invD [OF assms] split: if_splits)

lemma tcp_spawn_inv:
  assumes "tcp_inv h"
  shows "tcp_inv (tcp_spawn key h)"
  unfolding tcp_inv_def by (auto simp: tcp_spawn_def nth_append less_Suc_eq tcp_invD [OF assms])

lemma tcp_give_up_inv:
  assumes "tcp_inv h" "tc_phase (th_conns h ! c) = Connecting" "c < length (th_conns h)"
  shows "tcp_inv (tcp_give_up c h)"
  unfolding tcp_inv_def using assms(2,3)
  by (auto simp: tcp_give_up_def conn_nth tcp_invD [OF assms(1)] split: if_splits)

lemma tcp_step_inv: "tcp_inv h \<Longrightarrow> tcp_step h ev h' \<Longrightarrow> tcp_inv h'"
  by (erule tcp_stepE) (simp_all add: tcp_insert_inv tcp_remove_inv tcp_clear_inv tcp_spawn_inv tcp_give_up_inv)

interpretation tcp_table: invariant_system tcp_handle_new tcp_step tcp_inv
proof
  show "tcp_inv tcp_handle_new" by (simp add: tcp_inv_def tcp_handle_new_def)
qed (rule tcp_step_inv)

definition tcp_cleared :: "tcp_handle \<Rightarrow> bool" where
  "tcp_cleared h \<longleftrightarrow> th_connects h = Map.empty
     \<and> (\<forall>c < length (th_conns h). tc_phase (th_conns h ! c) = Copying \<longrightarrow> tc_cancelled (th_conns h ! c))"

interpretation tcp_clearing: clearing tcp_inv tcp_cleared "\<lambda>h. (True, tcp_clear h)"
proof
  fix h assume inv: "tcp_inv h"
  then show "tcp_inv (snd (True, tcp_clear h))" by (simp add: tcp_clear_inv)
  show "tcp_cleared (snd (True, tcp_clear h))"
    using tcp_invD [OF inv] by (auto simp: tcp_cleared_def tcp_clear_def)
qed

section \<open>Properties\<close>

text \<open>
  C30: in every history of connections, the table lists under each key exactly the connection that
  is being copied and was not cancelled; the notification of an address change therefore cancels
  every connection that is being copied and leaves the table empty.
\<close>

theorem tcp_clear_cancels_all:
  assumes "reachable tcp_handle_new tcp_step h"
  shows "(th_connects h key = Some c \<longleftrightarrow>
      c < length (th_conns h) \<and> tc_key (th_conns h ! c) = key \<and> tc_phase (th_conns h ! c) = Copying
      \<and> \<not> tc_cancelled (th_conns h ! c))
    \<and> th_connects (tcp_clear h) = Map.empty
    \<and> (\<forall>k < length (th_conns (tcp_clear h)). tc_phase (th_conns (tcp_clear h) ! k) = Copying \<longrightarrow>
         tc_cancelled (th_conns (tcp_clear h) ! k))"
proof -
  have inv: "tcp_inv h" using tcp_table.invar_reachable [OF assms] .
  show ?thesis
    using tcp_invD [OF inv] by (auto simp: tcp_clear_def)
qed

definition sample_key :: conn_key where
  "sample_key = (V4 \<lparr>v4_ip = Ipv4Addr 10 0 0 2, v4_port = 5000\<rparr>, V4 \<lparr>v4_ip = Ipv4Addr 192 18 0 1, v4_port = 443\<rparr>)"

theorem tcp_clear_cancels_all_witness:
  "\<exists>h. reachable tcp_handle_new tcp_step h \<and> th_connects h sample_key = Some 0
     \<and> tc_cancelled (th_conns (tcp_clear h) ! 0)"
proof -
  let ?h1 = "tcp_spawn sample_key tcp_handle_new"
  let ?h2 = "tcp_insert 0 ?h1"
  have "tcp_step tcp_handle_new (TcpNew sample_key) ?h1" "tcp_step ?h1 (TcpConnected 0) ?h2"
    by (simp_all add: tcp_step_new tcp_step_connected tcp_spawn_def tcp_handle_new_def)
  then have r: "reachable tcp_handle_new tcp_step ?h2" by (blast intro: reach_init reach_step)
  have "th_connects ?h2 sample_key = Some 0" "length (th_conns (tcp_clear ?h2)) = 1"
    "tc_phase (th_conns (tcp_clear ?h2) ! 0) = Copying"
    by (simp_all add: tcp_insert_def tcp_spawn_def tcp_handle_new_def tcp_clear_def set_phase_def drop_conn_def Let_def)
  with r tcp_clear_cancels_all [OF r] show ?thesis by (intro exI [of _ ?h2]) simp
qed


lemma sock5_connect_granted:
  assumes "tcp_connect proxy = Ok s" "tx_errs s = []" "rx s = [5, 0] @ resp @ rest" "granted resp"
  shows "sock5_connect tcp_connect addr proxy =
    Ok (s\<lparr>rx := rest, tx := tx s @ greeting @ tcp_request_bytes (connect_request addr)\<rparr>)"
proof -
  let ?t = "s\<lparr>rx := rest, tx := tx s @ greeting @ tcp_request_bytes (connect_request addr)\<rparr>"
  have "socks5_negotiate addr s = (Ok (), ?t)"
    unfolding negotiate_ok_iff [OF assms(2), of addr ?t] using assms(3,4) by (intro exI [of _ resp]) simp
  then show ?thesis by (simp add: sock5_connect_def assms(1))
qed

text \<open>
  C29: where a connection goes. A connection to a fake address reaches the SOCKS5 proxy and asks it
  for the domain behind the address and the original port; what is returned for copying starts with
  the first byte after the proxy's answers. Every other destination, IPv6 included, is connected
  directly. A failure or a timeout is reported as such.
\<close>

theorem tcp_open_target:
  assumes "create_outbound_tcp_socket (te_plat env) (te_os env) now (te_ifaces env) (te_keepalive env) dst cache = (Ok sk, cache')"
    and "\<not> tn_times_out net (choose_target fd dst)"
    and "tn_connect net (te_socks5_addr env) = Ok s" "tx_errs s = []" "tx s = []" "rx s = [5, 0] @ resp @ rest" "granted resp"
    and "tn_socket_connect net dst = Ok d"
  shows "fst (tcp_open env net fd now dst cache) =
    (case dst of
       V4 a \<Rightarrow>
         (case query_domain fd (ipv4_to_bits (v4_ip a)) of
            Some name \<Rightarrow> Ok (s\<lparr>rx := rest, tx := greeting @ tcp_request_bytes (connect_request (Domain name (v4_port a)))\<rparr>)
          | None \<Rightarrow> Ok d)
     | V6 _ \<Rightarrow> Ok d)"
proof (cases dst)
  case (V4 a)
  then show ?thesis
    using assms(1,2,5,8) sock5_connect_granted [of "tn_connect net" "te_socks5_addr env", OF assms(3,4,6,7)]
    by (auto simp: tcp_open_def choose_target_def connect_target_def Let_def split: option.splits)
next
  case (V6 a)
  with assms(1,2,8) show ?thesis by (simp add: tcp_open_def choose_target_def connect_target_def Let_def)
qed

definition sample_tcp_env :: tcp_env where
  "sample_tcp_env = \<lparr>te_plat = Linux, te_os = sample_os, te_ifaces = [''eth0''], te_keepalive = (600, 60, 5),
     te_socks5_addr = V4 \<lparr>v4_ip = Ipv4Addr 127 0 0 1, v4_port = 1086\<rparr>, te_link_buffer_size = 2,
     te_link_copy_timeout = 15\<rparr>"

definition sample_proxy :: duplex where
  "sample_proxy = \<lparr>rx = [5, 0] @ [5, 0, 0, 1, 0, 0, 0, 0, 0, 0] @ [72], rx_end = None, tx = [], tx_errs = []\<rparr>"

definition sample_net :: tcp_net where
  "sample_net = \<lparr>tn_connect = (\<lambda>_. Ok sample_proxy), tn_socket_connect = (\<lambda>_. Ok sample_proxy), tn_times_out = (\<lambda>_. False)\<rparr>"

lemma sample_granted: "granted [5, 0, 0, 1, 0, 0, 0, 0, 0, 0]"
  by (simp add: granted_def)

lemma sample_socket:
  "\<exists>sk. create_outbound_tcp_socket (te_plat sample_tcp_env) (te_os sample_tcp_env) now (te_ifaces sample_tcp_env)
     (te_keepalive sample_tcp_env) dst cache = (Ok sk, cache)"
  by (simp add: sample_tcp_env_def create_outbound_tcp_socket_def socket_new_def set_keepalive_def set_nonblocking_def
      set_ip_bound_if_def set_ip_bound_if_linux_def sys_def sample_os_def)

theorem tcp_open_target_witness:
  "\<exists>c. fst (tcp_open sample_tcp_env sample_net (fakedns_init\<lparr>ip_2_domain := [3222405121 \<mapsto> ''a.org'']\<rparr>) 0
        (V4 \<lparr>v4_ip = Ipv4Addr 192 18 0 1, v4_port = 443\<rparr>) Map.empty) = Ok c
     \<and> tx c = greeting @ tcp_request_bytes (connect_request (Domain ''a.org'' 443)) \<and> rx c = [72]"
proof -
  let ?dst = "V4 \<lparr>v4_ip = Ipv4Addr 192 18 0 1, v4_port = 443\<rparr>"
  obtain sk where sk: "create_outbound_tcp_socket (te_plat sample_tcp_env) (te_os sample_tcp_env) 0 (te_ifaces sample_tcp_env)
     (te_keepalive sample_tcp_env) ?dst Map.empty = (Ok sk, Map.empty)" using sample_socket by metis
  have q: "query_domain (fakedns_init\<lparr>ip_2_domain := [3222405121 \<mapsto> ''a.org'']\<rparr>) (ipv4_to_bits (Ipv4Addr 192 18 0 1)) = Some ''a.org''"
    by (simp add: query_domain_def ipv4_to_bits_def u32_from_be_bytes_def)
  show ?thesis
    using tcp_open_target [OF sk, of sample_net _ sample_proxy _ "[72]" sample_proxy, OF _ _ _ _ _ sample_granted] q
    by (simp add: sample_net_def sample_proxy_def)
qed

end
