(* ===== verification/Udp.thy ===== *)
theory Udp
  imports Fake_Dns Dns_Proxy Cancelable Notify
begin

text \<open>
  \<open>crates/tun/src/udp.rs\<close>: the UDP packets of the tunnel. DNS queries go to the fake resolver or to the
  DNS proxy; every other packet goes to the flow of its source address, which is a channel, a
  socket and two tasks: one sends the packets of the channel, the other brings replies back until
  it is silent for the timeout. A session of the table is the sender of the channel together with
  the handle that cancels the second task; both are dropped with the entry. The loop body of
  \<open>handle_udp_socket\<close> is \<open>udp_packet\<close>; the tasks and the clearing of the sessions are further steps
  that interleave with it. \<open>uf_given\<close> records the packets a flow was given.
\<close>

section \<open>State\<close>

record udp_flow =
  uf_src :: socket_addr
  uf_dest :: socket_addr
  uf_queue :: "bytes list"
  uf_rx_alive :: bool
  uf_tx_alive :: bool
  uf_in_alive :: bool
  uf_cancelled :: bool
  uf_given :: "bytes list"
  uf_sent :: "(bytes \<times> socket_addr) list"

record 'm udp_handle =
  uh_sessions :: "socket_addr \<rightharpoonup> nat"
  uh_flows :: "udp_flow list"
  uh_fake_dns :: fake_dns
  uh_dns_proxy :: "'m dns_proxy"
  uh_tun :: "(bytes \<times> socket_addr \<times> socket_addr) list"
  uh_cache :: index_cache
  uh_dns_clear :: nat
  uh_dns_clear_open :: bool

text \<open>How the loop goes on after a packet; \<open>Blocked\<close> is waiting for room in the channel of a flow.\<close>

datatype udp_out = Continue | Blocked | Stopped io_error | Panicked string

record udp_env =
  ue_proxy :: proxy_env
  ue_ch_size :: nat
  ue_tun_send :: "bytes \<Rightarrow> socket_addr \<Rightarrow> socket_addr \<Rightarrow> unit io_result"

definition udp_handle_new :: "fake_dns \<Rightarrow> 'm dns_proxy \<Rightarrow> 'm udp_handle" where
  "udp_handle_new fd dp = \<lparr>uh_sessions = Map.empty, uh_flows = [], uh_fake_dns = fd, uh_dns_proxy = dp,
     uh_tun = [], uh_cache = Map.empty, uh_dns_clear = 0, uh_dns_clear_open = True\<rparr>"

section \<open>A packet from the tunnel\<close>

definition dns_packet ::
    "('m, 'q, 'n, 'r) dns_lib \<Rightarrow> udp_env \<Rightarrow> nat \<Rightarrow> bytes \<Rightarrow> socket_addr \<Rightarrow> socket_addr \<Rightarrow> 'm udp_handle
     \<Rightarrow> udp_out \<times> 'm udp_handle" where
  "dns_packet L env now data s_addr d_addr h =
     (case process_dns_packet L (uh_fake_dns h) data of
        (Ok (Upstream msg), fd) \<Rightarrow>
          (case dns_proxy_send (ue_proxy env) now s_addr d_addr msg (uh_dns_proxy h) of
             (Panic m, dp) \<Rightarrow> (Panicked m, h\<lparr>uh_fake_dns := fd, uh_dns_proxy := dp\<rparr>)
           | (_, dp) \<Rightarrow> (Continue, h\<lparr>uh_fake_dns := fd, uh_dns_proxy := dp\<rparr>))
      | (Ok (Response resp), fd) \<Rightarrow>
          (case ue_tun_send env resp d_addr s_addr of
             Ok _ \<Rightarrow> (Continue, h\<lparr>uh_fake_dns := fd, uh_tun := uh_tun h @ [(resp, d_addr, s_addr)]\<rparr>)
           | Err e \<Rightarrow> (Stopped e, h\<lparr>uh_fake_dns := fd\<rparr>)
           | Panic m \<Rightarrow> (Panicked m, h\<lparr>uh_fake_dns := fd\<rparr>))
      | (Err e, fd) \<Rightarrow> (Continue, h\<lparr>uh_fake_dns := fd\<rparr>)
      | (Panic m, fd) \<Rightarrow> (Panicked m, h\<lparr>uh_fake_dns := fd\<rparr>))"

text \<open>Dropping the sender and the handle of a session.\<close>

definition end_flow :: "udp_flow \<Rightarrow> udp_flow" where
  "end_flow f = f\<lparr>uf_tx_alive := False, uf_cancelled := True\<rparr>"

definition on_flow :: "(udp_flow \<Rightarrow> udp_flow) \<Rightarrow> nat \<Rightarrow> 'm udp_handle \<Rightarrow> 'm udp_handle" where
  "on_flow g c h = h\<lparr>uh_flows := (uh_flows h)[c := g (uh_flows h ! c)]\<rparr>"

definition remove_session :: "socket_addr \<Rightarrow> 'm udp_handle \<Rightarrow> 'm udp_handle" where
  "remove_session s_addr h =
     (case uh_sessions h s_addr of
        None \<Rightarrow> h
      | Some c \<Rightarrow> (on_flow end_flow c h)\<lparr>uh_sessions := (uh_sessions h)(s_addr := None)\<rparr>)"

definition give :: "bytes \<Rightarrow> udp_flow \<Rightarrow> udp_flow" where
  "give data f = f\<lparr>uf_queue := uf_queue f @ [data], uf_given := uf_given f @ [data]\<rparr>"

definition new_flow :: "bytes \<Rightarrow> socket_addr \<Rightarrow> socket_addr \<Rightarrow> udp_flow" where
  "new_flow data s_addr d_addr = \<lparr>uf_src = s_addr, uf_dest = d_addr, uf_queue = [data], uf_rx_alive = True,
     uf_tx_alive = True, uf_in_alive = True, uf_cancelled = False, uf_given = [data], uf_sent = []\<rparr>"

definition flow_packet ::
    "udp_env \<Rightarrow> nat \<Rightarrow> bytes \<Rightarrow> socket_addr \<Rightarrow> socket_addr \<Rightarrow> 'm udp_handle \<Rightarrow> udp_out \<times> 'm udp_handle" where
  "flow_packet env now data s_addr d_addr h =
     (case uh_sessions h s_addr of
        Some c \<Rightarrow>
          (if \<not> uf_rx_alive (uh_flows h ! c) then (Continue, remove_session s_addr h)
           else if ue_ch_size env \<le> length (uf_queue (uh_flows h ! c)) then (Blocked, h)
           else (Continue, on_flow (give data) c h))
      | None \<Rightarrow>
          (if ue_ch_size env = 0 then (Panicked ''mpsc bounded channel requires buffer > 0'', h)
           else
             (case create_outbound_udp_socket (pe_plat (ue_proxy env)) (pe_os (ue_proxy env)) now
                     (pe_ifaces (ue_proxy env)) d_addr None (uh_cache h) of
                (Ok _, cache) \<Rightarrow>
                  (Continue, h\<lparr>uh_cache := cache, uh_sessions := (uh_sessions h)(s_addr \<mapsto> length (uh_flows h)),
                               uh_flows := uh_flows h @ [new_flow data s_addr d_addr]\<rparr>)
              | (_, cache) \<Rightarrow> (Panicked ''unwrap on Err'', h\<lparr>uh_cache := cache\<rparr>))))"

definition udp_packet ::
    "('m, 'q, 'n, 'r) dns_lib \<Rightarrow> udp_env \<Rightarrow> nat \<Rightarrow> bytes \<Rightarrow> socket_addr \<Rightarrow> socket_addr \<Rightarrow> 'm udp_handle
     \<Rightarrow> udp_out \<times> 'm udp_handle" where
  "udp_packet L env now data s_addr d_addr h =
     (if sa_port d_addr = 53 then dns_packet L env now data s_addr d_addr h
      else flow_packet env now data s_addr d_addr h)"

section \<open>The tasks of a flow\<close>

text \<open>\<open>forward_to_outgoing\<close>: one packet of the channel; an error of the socket ends the task.\<close>

definition flow_outgoing :: "bool \<Rightarrow> udp_flow \<Rightarrow> udp_flow" where
  "flow_outgoing send_ok f =
     (case uf_queue f of
        [] \<Rightarrow> if uf_tx_alive f then f else f\<lparr>uf_rx_alive := False\<rparr>
      | pkg # q \<Rightarrow>
        if send_ok then f\<lparr>uf_queue := q, uf_sent := uf_sent f @ [(pkg, uf_dest f)]\<rparr>
        else f\<lparr>uf_queue := [], uf_rx_alive := False\<rparr>)"

text \<open>\<open>forward_to_incoming\<close>: a reply, an error of the socket, or silence for the timeout.\<close>

datatype incoming = Reply bytes socket_addr | RecvFailed | TimedOut

definition flow_incoming ::
    "udp_env \<Rightarrow> nat \<Rightarrow> incoming \<Rightarrow> 'm udp_handle \<Rightarrow> udp_out \<times> 'm udp_handle" where
  "flow_incoming env c ev h =
     (let f = uh_flows h ! c in
      case ev of
        Reply data dest_addr \<Rightarrow>
          (case ue_tun_send env data dest_addr (uf_src f) of
             Ok _ \<Rightarrow> (Continue, h\<lparr>uh_tun := uh_tun h @ [(data, dest_addr, uf_src f)]\<rparr>)
           | _ \<Rightarrow> (Panicked ''unwrap on Err'', on_flow (\<lambda>f. f\<lparr>uf_in_alive := False\<rparr>) c h))
      | RecvFailed \<Rightarrow> (Continue, on_flow (\<lambda>f. f\<lparr>uf_in_alive := False\<rparr>) c h)
      | TimedOut \<Rightarrow>
          (Continue, on_flow (\<lambda>f. f\<lparr>uf_in_alive := False\<rparr>) c (remove_session (uf_src f) h)))"

text \<open>
  The clearing task: every session is dropped, and a message tells the DNS proxy to release its
  sockets; the task ends when that channel is closed. The proxy's own task takes the messages.
\<close>

definition udp_clear :: "'m udp_handle \<Rightarrow> 'm udp_handle" where
  "udp_clear h = h\<lparr>uh_sessions := Map.empty,
     uh_dns_clear := (if uh_dns_clear_open h then uh_dns_clear h + 1 else uh_dns_clear h),
     uh_flows := map (\<lambda>c. if uh_sessions h (uf_src (uh_flows h ! c)) = Some c then end_flow (uh_flows h ! c)
                          else uh_flows h ! c) [0 ..< length (uh_flows h)]\<rparr>"

definition udp_clear_task :: "notify_answer list \<Rightarrow> 'm udp_handle \<Rightarrow> bool \<times> 'm udp_handle" where
  "udp_clear_task = clear_loop (\<lambda>h. (uh_dns_clear_open h, udp_clear h))"

definition dns_release :: "'m udp_handle \<Rightarrow> 'm udp_handle" where
  "dns_release h = h\<lparr>uh_dns_clear := uh_dns_clear h - 1, uh_dns_proxy := dns_clear (uh_dns_proxy h)\<rparr>"

datatype udp_event = UdpPacket nat bytes socket_addr socket_addr | UdpOutgoing nat bool
  | UdpIncoming nat incoming | UdpCancelled nat | UdpClear | UdpDnsRelease

inductive udp_step ::
    "('m, 'q, 'n, 'r) dns_lib \<Rightarrow> udp_env \<Rightarrow> 'm udp_handle \<Rightarrow> udp_event \<Rightarrow> 'm udp_handle \<Rightarrow> bool" for L env where
  packet: "udp_step L env h (UdpPacket now data s d) (snd (udp_packet L env now data s d h))"
| outgoing: "c < length (uh_flows h) \<Longrightarrow> uf_rx_alive (uh_flows h ! c) \<Longrightarrow>
    udp_step L env h (UdpOutgoing c ok) (on_flow (flow_outgoing ok) c h)"
| incoming: "c < length (uh_flows h) \<Longrightarrow> uf_in_alive (uh_flows h ! c) \<Longrightarrow> \<not> uf_cancelled (uh_flows h ! c) \<Longrightarrow>
    udp_step L env h (UdpIncoming c ev) (snd (flow_incoming env c ev h))"
| cancelled: "c < length (uh_flows h) \<Longrightarrow> uf_in_alive (uh_flows h ! c) \<Longrightarrow> uf_cancelled (uh_flows h ! c) \<Longrightarrow>
    udp_step L env h (UdpCancelled c) (on_flow (\<lambda>f. f\<lparr>uf_in_alive := False\<rparr>) c h)"
| clear: "uh_dns_clear h < 16 \<Longrightarrow> udp_step L env h UdpClear (udp_clear h)"
| release: "0 < uh_dns_clear h \<Longrightarrow> udp_step L env h UdpDnsRelease (dns_release h)"

inductive_cases udp_stepE: "udp_step L env h ev h'"

text \<open>
  The invariants. Of the table: a session is a flow of its source that was not cancelled, and every
  flow that was not cancelled is the session of its source. Of a flow: it sends to one destination,
  and while its sending task lives, what was sent, followed by the queue, is what it was given.
\<close>

definition flow_ok :: "udp_flow \<Rightarrow> bool" where
  "flow_ok f \<longleftrightarrow> uf_tx_alive f = (\<not> uf_cancelled f)
     \<and> (\<exists>rest. uf_given f = map fst (uf_sent f) @ uf_queue f @ rest \<and> (uf_rx_alive f \<longrightarrow> rest = []))
     \<and> (\<forall>p \<in> set (uf_sent f). snd p = uf_dest f)"

definition udp_inv :: "'m udp_handle \<Rightarrow> bool" where
  "udp_inv h \<longleftrightarrow>
     (\<forall>s c. uh_sessions h s = Some c \<longleftrightarrow>
        c < length (uh_flows h) \<and> uf_src (uh_flows h ! c) = s \<and> \<not> uf_cancelled (uh_flows h ! c))
   \<and> (\<forall>c < length (uh_flows h). flow_ok (uh_flows h ! c))"

lemma udp_invD:
  assumes "udp_inv h"
  shows "uh_sessions h s = Some c \<longleftrightarrow>
      c < length (uh_flows h) \<and> uf_src (uh_flows h ! c) = s \<and> \<not> uf_cancelled (uh_flows h ! c)"
    "c < length (uh_flows h) \<Longrightarrow> flow_ok (uh_flows h ! c)"
  using assms unfolding udp_inv_def by blast+

lemma on_flow_nth:
  "k < length (uh_flows h) \<Longrightarrow>
   uh_flows (on_flow g c h) ! k = (if k = c then g (uh_flows h ! k) else uh_flows h ! k)"
  by (simp add: on_flow_def)

lemma on_flow_fields [simp]:
  "length (uh_flows (on_flow g c h)) = length (uh_flows h)" "uh_sessions (on_flow g c h) = uh_sessions h"
  by (simp_all add: on_flow_def)

lemma on_flow_inv:
  assumes "udp_inv h"
    and "c < length (uh_flows h) \<Longrightarrow> flow_ok (uh_flows h ! c) \<Longrightarrow> flow_ok (g (uh_flows h ! c))
      \<and> uf_src (g (uh_flows h ! c)) = uf_src (uh_flows h ! c)
      \<and> uf_cancelled (g (uh_flows h ! c)) = uf_cancelled (uh_flows h ! c)"
  shows "udp_inv (on_flow g c h)"
  unfolding udp_inv_def using assms(2) by (auto simp: on_flow_nth udp_invD [OF assms(1)] split: if_splits)

lemma end_flow_fields [simp]: "uf_src (end_flow f) = uf_src f" "uf_cancelled (end_flow f)"
  by (simp_all add: end_flow_def)

lemma new_flow_fields [simp]:
  "uf_src (new_flow data s d) = s" "\<not> uf_cancelled (new_flow data s d)" "flow_ok (new_flow data s d)"
  by (simp_all add: new_flow_def flow_ok_def)

lemma flow_ok_end: "flow_ok f \<Longrightarrow> flow_ok (end_flow f)"
  by (auto simp: flow_ok_def end_flow_def)

lemma flow_ok_in [simp]: "flow_ok (f\<lparr>uf_in_alive := b\<rparr>) = flow_ok f"
  by (simp add: flow_ok_def)

lemma flow_ok_outgoing: "flow_ok f \<Longrightarrow> flow_ok (flow_outgoing ok f)"
  by (auto simp: flow_ok_def flow_outgoing_def split: list.splits)

lemma flow_outgoing_fields [simp]:
  "uf_src (flow_outgoing ok f) = uf_src f" "uf_cancelled (flow_outgoing ok f) = uf_cancelled f"
  by (simp_all add: flow_outgoing_def split: list.split)

lemma remove_session_inv:
  assumes "udp_inv h"
  shows "udp_inv (remove_session s h)"
proof (cases "uh_sessions h s")
  case None
  with assms show ?thesis by (simp add: remove_session_def)
next
  case (Some x)
  have x: "x < length (uh_flows h)" "uf_src (uh_flows h ! x) = s" "\<not> uf_cancelled (uh_flows h ! x)"
    using udp_invD(1) [OF assms, of s x] Some by simp_all
  have uniq: "c = x" if "c < length (uh_flows h)" "uf_src (uh_flows h ! c) = s" "\<not> uf_cancelled (uh_flows h ! c)" for c
    using udp_invD(1) [OF assms, of s c] that Some by simp
  let ?h = "(on_flow end_flow x h)\<lparr>uh_sessions := (uh_sessions h)(s := None)\<rparr>"
  have "uh_sessions ?h t = Some c \<longleftrightarrow>
      c < length (uh_flows ?h) \<and> uf_src (uh_flows ?h ! c) = t \<and> \<not> uf_cancelled (uh_flows ?h ! c)" for t c
  proof (cases "c = x")
    case True
    with x udp_invD(1) [OF assms, of t x] show ?thesis by (auto simp: on_flow_nth end_flow_def)
  next
    case False
    with udp_invD(1) [OF assms, of t c] uniq [of c] show ?thesis by (auto simp: on_flow_nth)
  qed
  moreover have "flow_ok (uh_flows ?h ! c)" if "c < length (uh_flows ?h)" for c
    using that udp_invD(2) [OF assms, of c] by (auto simp: on_flow_nth flow_ok_end)
  ultimately have "udp_inv ?h" unfolding udp_inv_def by blast
  with Some show ?thesis by (simp add: remove_session_def)
qed

lemma flow_packet_inv:
  assumes "udp_inv h" "flow_packet env now data s d h = (out, h')"
  shows "udp_inv h'"
proof (cases "uh_sessions h s")
  case (Some c)
  have "udp_inv (on_flow (give data) c h)" if "uf_rx_alive (uh_flows h ! c)"
    using that by (intro on_flow_inv [OF assms(1)]) (auto simp: flow_ok_def give_def)
  with assms Some remove_session_inv [OF assms(1)] show ?thesis
    by (auto simp: flow_packet_def split: if_splits)
next
  case None
  have free: "uf_cancelled (uh_flows h ! c)" if "c < length (uh_flows h)" "uf_src (uh_flows h ! c) = s" for c
    using udp_invD(1) [OF assms(1), of s c] that None by auto
  have "udp_inv (h\<lparr>uh_cache := cache, uh_sessions := (uh_sessions h)(s \<mapsto> length (uh_flows h)),
      uh_flows := uh_flows h @ [new_flow data s d]\<rparr>)" for cache
    unfolding udp_inv_def using free
    by (auto simp: nth_append less_Suc_eq udp_invD [OF assms(1)])
  moreover have "udp_inv (h\<lparr>uh_cache := cache\<rparr>)" for cache using assms(1) by (simp add: udp_inv_def)
  ultimately show ?thesis using assms None
    by (auto simp: flow_packet_def split: if_splits prod.splits result.splits)
qed

lemma udp_inv_fields:
  "uh_sessions h' = uh_sessions h \<Longrightarrow> uh_flows h' = uh_flows h \<Longrightarrow> udp_inv h' = udp_inv h"
  by (simp add: udp_inv_def)

lemma dns_packet_frame:
  "dns_packet L env now data s d h = (out, h') \<Longrightarrow> uh_sessions h' = uh_sessions h \<and> uh_flows h' = uh_flows h"
  by (auto simp: dns_packet_def split: prod.splits result.splits fakedns_processed.splits)

lemma udp_packet_inv: "udp_inv h \<Longrightarrow> udp_inv (snd (udp_packet L env now data s d h))"
proof -
  assume inv: "udp_inv h"
  obtain o1 h1 where 1: "dns_packet L env now data s d h = (o1, h1)" by fastforce
  obtain o2 h2 where 2: "flow_packet env now data s d h = (o2, h2)" by fastforce
  from 1 2 dns_packet_frame [OF 1] flow_packet_inv [OF inv 2] inv udp_inv_fields [of h1 h] show ?thesis
    by (simp add: udp_packet_def)
qed

lemma flow_incoming_inv: "udp_inv h \<Longrightarrow> udp_inv (snd (flow_incoming env c ev h))"
proof -
  assume inv: "udp_inv h"
  have "udp_inv (h\<lparr>uh_tun := t\<rparr>)" for t using inv by (simp add: udp_inv_def)
  moreover have "udp_inv (on_flow (\<lambda>f. f\<lparr>uf_in_alive := False\<rparr>) c k)" if "udp_inv k" for k :: "'a udp_handle"
    using that by (rule on_flow_inv) simp
  ultimately show ?thesis
    using inv remove_session_inv [OF inv]
    by (simp add: flow_incoming_def Let_def split: incoming.split result.split)
qed

lemma udp_clear_inv:
  assumes "udp_inv h"
  shows "udp_inv (udp_clear h)"
  unfolding udp_inv_def
  by (auto simp: udp_clear_def udp_invD [OF assms] flow_ok_end split: if_splits)

lemma dns_release_inv: "udp_inv h \<Longrightarrow> udp_inv (dns_release h)"
  by (simp add: udp_inv_def dns_release_def)

lemma udp_step_inv: "udp_inv h \<Longrightarrow> udp_step L env h ev h' \<Longrightarrow> udp_inv h'"
proof (erule udp_stepE, goal_cases)
  case (2 c ok)
  then show ?case
    by (auto intro!: on_flow_inv simp: flow_ok_outgoing)
next
  case (4 c)
  then show ?case by (auto intro!: on_flow_inv)
qed (simp_all add: udp_packet_inv flow_incoming_inv udp_clear_inv dns_release_inv)

interpretation udp_table: invariant_system "udp_handle_new fd dp" "udp_step L env" udp_inv
  for fd and dp :: "'m dns_proxy" and L env
proof
  show "udp_inv (udp_handle_new fd dp)" by (simp add: udp_inv_def udp_handle_new_def)
qed (rule udp_step_inv)

definition udp_cleared :: "'m udp_handle \<Rightarrow> bool" where
  "udp_cleared h \<longleftrightarrow> uh_sessions h = Map.empty
     \<and> (\<forall>c < length (uh_flows h). uf_cancelled (uh_flows h ! c) \<and> \<not> uf_tx_alive (uh_flows h ! c))"

lemma udp_clear_cleared:
  assumes "udp_inv h"
  shows "udp_cleared (udp_clear h)"
proof -
  have "flow_ok f \<Longrightarrow> uf_cancelled f \<Longrightarrow> \<not> uf_tx_alive f" for f by (simp add: flow_ok_def)
  with udp_invD [OF assms] show ?thesis by (auto simp: udp_cleared_def udp_clear_def end_flow_def)
qed

interpretation udp_clearing: clearing udp_inv udp_cleared "\<lambda>h. (uh_dns_clear_open h, udp_clear h)"
  by unfold_locales (simp_all add: udp_clear_inv udp_clear_cleared)

section \<open>Properties\<close>

text \<open>
  C31: in every history of packets, tasks and clearings, a session is the one flow of its source
  that was not cancelled, and every flow sends the packets it was given in their order, without
  loss or repetition, until its sending task ends; all of them to one destination.
\<close>

theorem udp_flows_ordered:
  assumes "reachable (udp_handle_new fd dp) (udp_step L env) h"
  shows "(uh_sessions h s = Some c \<longleftrightarrow>
      c < length (uh_flows h) \<and> uf_src (uh_flows h ! c) = s \<and> \<not> uf_cancelled (uh_flows h ! c))
    \<and> (\<forall>k < length (uh_flows h). \<exists>rest.
        uf_given (uh_flows h ! k) = map fst (uf_sent (uh_flows h ! k)) @ uf_queue (uh_flows h ! k) @ rest
        \<and> (uf_rx_alive (uh_flows h ! k) \<longrightarrow> rest = [])
        \<and> (\<forall>p \<in> set (uf_sent (uh_flows h ! k)). snd p = uf_dest (uh_flows h ! k)))"
proof -
  have inv: "udp_inv h" using udp_table.invar_reachable [OF assms] .
  show ?thesis using udp_invD [OF inv] by (auto simp: flow_ok_def)
qed

definition sample_udp_env :: udp_env where
  "sample_udp_env = \<lparr>ue_proxy = sample_env Udp, ue_ch_size = 256, ue_tun_send = (\<lambda>_ _ _. Ok ())\<rparr>"

definition sample_addr :: "byte \<Rightarrow> u16 \<Rightarrow> socket_addr" where
  "sample_addr n p = V4 \<lparr>v4_ip = Ipv4Addr 10 0 0 n, v4_port = p\<rparr>"

definition sample_udp :: "sample_msg udp_handle" where
  "sample_udp = udp_handle_new fakedns_init (dns_proxy_new 3 10880)"

lemma sample_flow:
  "udp_packet sample_lib sample_udp_env 0 data (sample_addr 2 5000) (sample_addr 3 9000) sample_udp =
   (Continue, sample_udp\<lparr>uh_sessions := [sample_addr 2 5000 \<mapsto> 0],
      uh_flows := [new_flow data (sample_addr 2 5000) (sample_addr 3 9000)]\<rparr>)"
  by (simp add: sample_udp_def sample_udp_env_def udp_packet_def flow_packet_def udp_handle_new_def sample_addr_def
      sample_env_def create_outbound_udp_socket_def socket_new_def bind_local_def set_nonblocking_def
      set_ip_bound_if_def set_ip_bound_if_linux_def sys_def sample_os_def)

theorem udp_flows_ordered_witness:
  "\<exists>h. reachable sample_udp (udp_step sample_lib sample_udp_env) h \<and> uh_sessions h (sample_addr 2 5000) = Some 0
     \<and> uf_src (uh_flows h ! 0) = sample_addr 2 5000 \<and> \<not> uf_cancelled (uh_flows h ! 0)"
proof -
  let ?h = "snd (udp_packet sample_lib sample_udp_env 0 [1] (sample_addr 2 5000) (sample_addr 3 9000) sample_udp)"
  have r: "reachable sample_udp (udp_step sample_lib sample_udp_env) ?h"
    using reach_step [OF reach_init, of "udp_step sample_lib sample_udp_env" sample_udp _ ?h] packet by blast
  have "uh_sessions ?h (sample_addr 2 5000) = Some 0" by (simp add: sample_flow)
  with r udp_flows_ordered [OF r [unfolded sample_udp_def], of "sample_addr 2 5000" 0] show ?thesis
    unfolding sample_udp_def by blast
qed

text \<open>
  C33: a flow keeps its first destination. A packet that is not a DNS query, from a source whose flow
  was opened for another destination, is queued on that flow, and the next packet its task takes
  when it is the only one is sent to the old destination, not to the one it was addressed to.
\<close>

theorem udp_wrong_destination:
  assumes "uh_sessions h s = Some c" "c < length (uh_flows h)" "uf_rx_alive (uh_flows h ! c)"
    and "uf_queue (uh_flows h ! c) = []" "0 < ue_ch_size env" "uf_dest (uh_flows h ! c) \<noteq> d" "sa_port d \<noteq> 53"
    and "udp_packet L env now data s d h = (out, h')"
  shows "out = Continue
    \<and> uf_sent (uh_flows (on_flow (flow_outgoing True) c h') ! c) = uf_sent (uh_flows h ! c) @ [(data, uf_dest (uh_flows h ! c))]"
  using assms by (auto simp: udp_packet_def flow_packet_def on_flow_nth give_def flow_outgoing_def)

definition busy_udp :: "sample_msg udp_handle" where
  "busy_udp = sample_udp\<lparr>uh_sessions := [sample_addr 2 5000 \<mapsto> 0],
     uh_flows := [(new_flow [1] (sample_addr 2 5000) (sample_addr 3 9000))\<lparr>uf_queue := [], uf_sent := [([1], sample_addr 3 9000)]\<rparr>]\<rparr>"

theorem udp_wrong_destination_witness:
  "uf_sent (uh_flows (on_flow (flow_outgoing True) 0
     (snd (udp_packet sample_lib sample_udp_env 0 [7] (sample_addr 2 5000) (sample_addr 4 9000) busy_udp))) ! 0) =
   [([1], sample_addr 3 9000), ([7], sample_addr 3 9000)]"
proof -
  obtain out h' where p: "udp_packet sample_lib sample_udp_env 0 [7] (sample_addr 2 5000) (sample_addr 4 9000) busy_udp = (out, h')"
    by fastforce
  from udp_wrong_destination [OF _ _ _ _ _ _ _ p, of 0] p show ?thesis
    by (simp add: busy_udp_def new_flow_def sample_addr_def sample_udp_env_def)
qed

text \<open>
  Replies come back to the client. Whatever a flow's second task does, the only packet it can
  send into the tunnel is the reply it read, from the address it was read from and to the source of
  the flow; and when it ends because of the timeout, the session of that source is gone and its
  flow is cancelled.
\<close>

theorem udp_reply_routed:
  assumes "udp_inv h" "c < length (uh_flows h)" "\<not> uf_cancelled (uh_flows h ! c)"
    and "flow_incoming env c ev h = (out, h')"
  shows "(case ev of
       Reply data from \<Rightarrow> (out = Continue \<and> uh_tun h' = uh_tun h @ [(data, from, uf_src (uh_flows h ! c))]) \<or>
         ((\<nexists>u. ue_tun_send env data from (uf_src (uh_flows h ! c)) = Ok u) \<and> uh_tun h' = uh_tun h)
     | RecvFailed \<Rightarrow> uh_tun h' = uh_tun h \<and> uh_sessions h' = uh_sessions h \<and> \<not> uf_in_alive (uh_flows h' ! c)
     | TimedOut \<Rightarrow> uh_tun h' = uh_tun h \<and> uh_sessions h' (uf_src (uh_flows h ! c)) = None
         \<and> uf_cancelled (uh_flows h' ! c) \<and> \<not> uf_in_alive (uh_flows h' ! c))"
proof -
  have s: "uh_sessions h (uf_src (uh_flows h ! c)) = Some c" using udp_invD(1) [OF assms(1)] assms(2,3) by blast
  show ?thesis
    using assms(2,4) s
    by (auto simp: flow_incoming_def Let_def remove_session_def on_flow_def end_flow_def
        split: incoming.splits result.splits)
qed

theorem udp_reply_routed_witness:
  "uh_tun (snd (flow_incoming sample_udp_env 0 (Reply [9] (sample_addr 3 9000)) busy_udp)) =
     [([9], sample_addr 3 9000, sample_addr 2 5000)]"
proof -
  obtain out h' where p: "flow_incoming sample_udp_env 0 (Reply [9] (sample_addr 3 9000)) busy_udp = (out, h')"
    by fastforce
  have "udp_inv busy_udp"
    by (auto simp: udp_inv_def busy_udp_def new_flow_def flow_ok_def sample_udp_def udp_handle_new_def nth_Cons')
  from udp_reply_routed [OF this _ _ p] p show ?thesis
    by (simp add: busy_udp_def new_flow_def sample_udp_def udp_handle_new_def sample_udp_env_def)
qed

end
