(* ===== verification/Rust_Str.thy ===== *)
theory Rust_Str
  imports Rtun_Prelude "HOL-Library.Monad_Syntax"
begin

text \<open>
  The string functions of the Rust standard library that the configuration, the rule file and the
  parsing of command output use: trimming, splitting at a character, at line ends and at white
  space, lower case, and the parsing of unsigned numbers, IP addresses and socket addresses, and UTF-8. White space is the ASCII
  white space; a byte above 127 is never white space.
\<close>

section \<open>White space and splitting\<close>

definition is_ws :: "char \<Rightarrow> bool" where
  "is_ws c \<longleftrightarrow> c = CHR '' '' \<or> (9 \<le> (of_char c :: nat) \<and> (of_char c :: nat) \<le> 13)"

definition trim :: "string \<Rightarrow> string" where
  "trim s = rev (dropWhile is_ws (rev (dropWhile is_ws s)))"

text \<open>\<open>str::split\<close> at a character: every piece, empty ones too, so that there is at least one.\<close>

fun split_on :: "char \<Rightarrow> string \<Rightarrow> string list" where
  "split_on sep [] = [[]]"
| "split_on sep (c # cs) =
     (if c = sep then [] # split_on sep cs
      else case split_on sep cs of p # ps \<Rightarrow> (c # p) # ps | [] \<Rightarrow> [[c]])"

definition split_whitespace :: "string \<Rightarrow> string list" where
  "split_whitespace s = filter (\<lambda>w. w \<noteq> []) (split_on CHR '' '' (map (\<lambda>c. if is_ws c then CHR '' '' else c) s))"

definition strip_cr :: "string \<Rightarrow> string" where
  "strip_cr s = (if s \<noteq> [] \<and> last s = CHR 0x0D then butlast s else s)"

text \<open>\<open>BufRead::lines\<close>: a final line end does not start another line.\<close>

definition lines :: "string \<Rightarrow> string list" where
  "lines s = (let ps = split_on CHR 0x0A s in
     map strip_cr (if last ps = [] then butlast ps else ps))"

section \<open>Numbers and addresses\<close>

definition to_ascii_lowercase :: "string \<Rightarrow> string" where
  "to_ascii_lowercase = map (\<lambda>c. let n = of_char c :: nat in if 65 \<le> n \<and> n \<le> 90 then char_of (n + 32) else c)"

definition digit_value :: "char \<Rightarrow> nat option" where
  "digit_value c = (let n = of_char c :: nat in if 48 \<le> n \<and> n \<le> 57 then Some (n - 48) else None)"

fun digits_value :: "nat \<Rightarrow> string \<Rightarrow> nat option" where
  "digits_value acc [] = Some acc"
| "digits_value acc (c # cs) =
     (case digit_value c of None \<Rightarrow> None | Some d \<Rightarrow> digits_value (10 * acc + d) cs)"

text \<open>\<open>FromStr\<close> of an unsigned integer type with the given maximum: a leading \<open>+\<close> is allowed.\<close>

definition parse_uint :: "nat \<Rightarrow> string \<Rightarrow> nat option" where
  "parse_uint mx s =
     (let ds = (case s of CHR ''+'' # cs \<Rightarrow> cs | _ \<Rightarrow> s) in
      if ds = [] then None
      else case digits_value 0 ds of
             Some n \<Rightarrow> if n \<le> mx then Some n else None
           | None \<Rightarrow> None)"

text \<open>The printed form of a number.\<close>

fun nat_digits :: "nat \<Rightarrow> string" where
  "nat_digits n = (if n < 10 then [char_of (48 + n)] else nat_digits (n div 10) @ [char_of (48 + n mod 10)])"

declare nat_digits.simps [simp del]

section \<open>IP addresses\<close>

text \<open>
  The address parser of \<open>core::net\<close>, which reads a prefix of the string and returns the rest.
  \<open>read_number\<close> reads digits of a radix up to a largest value and, when given, a largest count.
\<close>

definition to_digit :: "nat \<Rightarrow> char \<Rightarrow> nat option" where
  "to_digit radix c =
     (let n = of_char c :: nat;
          d = (if 48 \<le> n \<and> n \<le> 57 then n - 48
               else if 97 \<le> n \<and> n \<le> 122 then n - 87
               else if 65 \<le> n \<and> n \<le> 90 then n - 55 else radix) in
      if d < radix then Some d else None)"

fun read_digits :: "nat \<Rightarrow> nat \<Rightarrow> nat option \<Rightarrow> nat \<Rightarrow> nat \<Rightarrow> string \<Rightarrow> (nat \<times> nat \<times> string) option" where
  "read_digits radix mx md acc n [] = Some (acc, n, [])"
| "read_digits radix mx md acc n (c # cs) =
     (case to_digit radix c of
        None \<Rightarrow> Some (acc, n, c # cs)
      | Some d \<Rightarrow>
        if mx < acc * radix + d \<or> (case md of Some m \<Rightarrow> m < Suc n | None \<Rightarrow> False) then None
        else read_digits radix mx md (acc * radix + d) (Suc n) cs)"

definition read_number :: "nat \<Rightarrow> nat \<Rightarrow> nat option \<Rightarrow> bool \<Rightarrow> string \<Rightarrow> (nat \<times> string) option" where
  "read_number radix mx md allow_zero_prefix s =
     (case read_digits radix mx md 0 0 s of
        None \<Rightarrow> None
      | Some (v, n, r) \<Rightarrow>
        if n = 0 \<or> (\<not> allow_zero_prefix \<and> hd s = CHR ''0'' \<and> 1 < n) then None else Some (v, r))"

fun read_given_char :: "char \<Rightarrow> string \<Rightarrow> (unit \<times> string) option" where
  "read_given_char c [] = None"
| "read_given_char c (x # r) = (if x = c then Some ((), r) else None)"

definition read_separator ::
    "char \<Rightarrow> nat \<Rightarrow> (string \<Rightarrow> ('a \<times> string) option) \<Rightarrow> string \<Rightarrow> ('a \<times> string) option" where
  "read_separator c i f s =
     (if 0 < i then do { (_, r) \<leftarrow> read_given_char c s; f r } else f s)"

definition read_octet :: "nat \<Rightarrow> string \<Rightarrow> (byte \<times> string) option" where
  "read_octet i s = do {
     (v, r) \<leftarrow> read_separator CHR ''.'' i (read_number 10 255 (Some 3) False) s;
     Some (of_nat v, r) }"

definition parser_ipv4 :: "string \<Rightarrow> (ipv4_addr \<times> string) option" where
  "parser_ipv4 s = do {
     (a, s) \<leftarrow> read_octet 0 s;
     (b, s) \<leftarrow> read_octet 1 s;
     (c, s) \<leftarrow> read_octet 2 s;
     (d, s) \<leftarrow> read_octet 3 s;
     Some (Ipv4Addr a b c d, s) }"

text \<open>
  The groups of an IPv6 address from position \<open>i\<close> on, at most \<open>limit\<close> of them; the last two may be
  written as an IPv4 address, which the flag reports.
\<close>

function read_groups :: "nat \<Rightarrow> nat \<Rightarrow> string \<Rightarrow> u16 list \<times> bool \<times> string" where
  "read_groups limit i s =
     (if limit \<le> i then ([], False, s)
      else
        (case (if Suc i < limit then read_separator CHR '':'' i parser_ipv4 s else None) of
           Some (Ipv4Addr a b c d, r) \<Rightarrow> ([u16_from_be_bytes [a, b], u16_from_be_bytes [c, d]], True, r)
         | None \<Rightarrow>
           (case read_separator CHR '':'' i (read_number 16 65535 (Some 4) True) s of
              Some (g, r) \<Rightarrow> (case read_groups limit (Suc i) r of (gs, b, r') \<Rightarrow> (of_nat g # gs, b, r'))
            | None \<Rightarrow> ([], False, s))))"
  by pat_completeness auto
termination by (relation "measure (\<lambda>(limit, i, s). limit - i)") auto

declare read_groups.simps [simp del]

definition ipv6_of_segments :: "u16 list \<Rightarrow> ipv6_addr" where
  "ipv6_of_segments g = Ipv6Addr (g ! 0) (g ! 1) (g ! 2) (g ! 3) (g ! 4) (g ! 5) (g ! 6) (g ! 7)"

definition parser_ipv6 :: "string \<Rightarrow> (ipv6_addr \<times> string) option" where
  "parser_ipv6 s =
     (case read_groups 8 0 s of
        (head, head_ipv4, r) \<Rightarrow>
          if length head = 8 then Some (ipv6_of_segments head, r)
          else if head_ipv4 then None
          else do {
            (_, r) \<leftarrow> read_given_char CHR '':'' r;
            (_, r) \<leftarrow> read_given_char CHR '':'' r;
            case read_groups (7 - length head) 0 r of
              (tail, _, r) \<Rightarrow>
                Some (ipv6_of_segments (head @ replicate (8 - length head - length tail) 0 @ tail), r) })"

definition read_ip_addr :: "string \<Rightarrow> (ip_addr \<times> string) option" where
  "read_ip_addr s =
     (case parser_ipv4 s of
        Some (a, r) \<Rightarrow> Some (V4Addr a, r)
      | None \<Rightarrow> do { (a, r) \<leftarrow> parser_ipv6 s; Some (V6Addr a, r) })"

definition read_port :: "string \<Rightarrow> (u16 \<times> string) option" where
  "read_port s = do {
     (_, r) \<leftarrow> read_given_char CHR '':'' s;
     (p, r) \<leftarrow> read_number 10 65535 None True r;
     Some (of_nat p, r) }"

definition read_scope_id :: "string \<Rightarrow> (u32 \<times> string) option" where
  "read_scope_id s = do {
     (_, r) \<leftarrow> read_given_char CHR ''%'' s;
     (p, r) \<leftarrow> read_number 10 4294967295 None True r;
     Some (of_nat p, r) }"

definition read_socket_addr_v4 :: "string \<Rightarrow> (socket_addr \<times> string) option" where
  "read_socket_addr_v4 s = do {
     (ip, r) \<leftarrow> parser_ipv4 s;
     (p, r) \<leftarrow> read_port r;
     Some (V4 \<lparr>v4_ip = ip, v4_port = p\<rparr>, r) }"

definition read_socket_addr_v6 :: "string \<Rightarrow> (socket_addr \<times> string) option" where
  "read_socket_addr_v6 s = do {
     (_, r) \<leftarrow> read_given_char CHR ''['' s;
     (ip, r) \<leftarrow> parser_ipv6 r;
     (scope, r) \<leftarrow> Some (case read_scope_id r of Some (v, r') \<Rightarrow> (v, r') | None \<Rightarrow> (0, r));
     (_, r) \<leftarrow> read_given_char CHR '']'' r;
     (p, r) \<leftarrow> read_port r;
     Some (V6 \<lparr>v6_ip = ip, v6_port = p, v6_flowinfo = 0, v6_scope_id = scope\<rparr>, r) }"

definition read_socket_addr :: "string \<Rightarrow> (socket_addr \<times> string) option" where
  "read_socket_addr s =
     (case read_socket_addr_v4 s of Some p \<Rightarrow> Some p | None \<Rightarrow> read_socket_addr_v6 s)"

text \<open>\<open>FromStr\<close>: the parser must consume the whole string.\<close>

definition parse_with :: "(string \<Rightarrow> ('a \<times> string) option) \<Rightarrow> string \<Rightarrow> 'a option" where
  "parse_with f s = (case f s of Some (a, []) \<Rightarrow> Some a | _ \<Rightarrow> None)"

definition parse_ipv4 :: "string \<Rightarrow> ipv4_addr option" where
  "parse_ipv4 s = (if 15 < length s then None else parse_with parser_ipv4 s)"

definition parse_ip_addr :: "string \<Rightarrow> ip_addr option" where
  "parse_ip_addr s = parse_with read_ip_addr s"

definition parse_socket_addr :: "string \<Rightarrow> socket_addr option" where
  "parse_socket_addr s = parse_with read_socket_addr s"

text \<open>\<open>Display\<close> of an IPv4 address.\<close>

fun ipv4_display :: "ipv4_addr \<Rightarrow> string" where
  "ipv4_display (Ipv4Addr a b c d) =
     nat_digits (unat a) @ ''.'' @ nat_digits (unat b) @ ''.'' @ nat_digits (unat c) @ ''.'' @ nat_digits (unat d)"

section \<open>UTF-8\<close>

text \<open>Validity of a byte string as UTF-8, and \<open>BufRead::lines\<close> with the error of an invalid line.\<close>

fun utf8_valid :: "nat list \<Rightarrow> bool" where
  "utf8_valid [] = True"
| "utf8_valid (a # bs) =
     (if a < 128 then utf8_valid bs
      else
        (let cont = (\<lambda>b. 128 \<le> b \<and> b < 192) in
         case bs of
           [] \<Rightarrow> False
         | b # cs \<Rightarrow>
           if 194 \<le> a \<and> a \<le> 223 then cont b \<and> utf8_valid cs
           else
             (case cs of
                [] \<Rightarrow> False
              | c # ds \<Rightarrow>
                if 224 \<le> a \<and> a \<le> 239 then
                  cont b \<and> (a = 224 \<longrightarrow> 160 \<le> b) \<and> (a = 237 \<longrightarrow> b < 160) \<and> cont c \<and> utf8_valid ds
                else
                  (case ds of
                     [] \<Rightarrow> False
                   | d # es \<Rightarrow>
                     240 \<le> a \<and> a \<le> 244 \<and> cont b \<and> (a = 240 \<longrightarrow> 144 \<le> b) \<and> (a = 244 \<longrightarrow> b < 144)
                     \<and> cont c \<and> cont d \<and> utf8_valid es))))"

definition utf8_str :: "string \<Rightarrow> bool" where
  "utf8_str s = utf8_valid (map of_char s)"

definition invalid_utf8 :: io_error where
  "invalid_utf8 = IoError InvalidData ''stream did not contain valid UTF-8''"

definition read_lines :: "string \<Rightarrow> string io_result list" where
  "read_lines s = map (\<lambda>l. if utf8_str l then Ok l else Err invalid_utf8) (lines s)"

text \<open>\<open>collect\<close> into a \<open>Result\<close>: the values, or the first error.\<close>

fun collect_results :: "('a, 'e) result list \<Rightarrow> ('a list, 'e) result" where
  "collect_results [] = Ok []"
| "collect_results (r # rs) =
     (case r of
        Ok a \<Rightarrow> map_result ((#) a) (collect_results rs)
      | Err e \<Rightarrow> Err e
      | Panic m \<Rightarrow> Panic m)"

section \<open>Lemmas\<close>

lemma split_on_nonempty [simp]: "split_on sep s \<noteq> []"
  by (induction s) (auto split: list.split)

lemma split_on_plain: "sep \<notin> set s \<Longrightarrow> split_on sep s = [s]"
  by (induction s) auto

lemma split_on_append: "sep \<notin> set s \<Longrightarrow> split_on sep (s @ sep # t) = s # split_on sep t"
  by (induction s) auto

lemma split_on_join:
  "ps \<noteq> [] \<Longrightarrow> \<forall>p \<in> set ps. sep \<notin> set p \<Longrightarrow>
   split_on sep (concat (map (\<lambda>p. p @ [sep]) (butlast ps)) @ last ps) = ps"
proof (induction ps)
  case (Cons p ps)
  then show ?case using split_on_plain [of sep p] split_on_append [of sep p] by (cases ps) auto
qed simp

lemma split_on_sep_free: "p \<in> set (split_on sep s) \<Longrightarrow> sep \<notin> set p"
proof (induction s arbitrary: p)
  case (Cons c s)
  then show ?case by (cases "split_on sep s") (auto split: if_splits)
qed simp

lemma trim_idle: "s = [] \<or> (\<not> is_ws (hd s) \<and> \<not> is_ws (last s)) \<Longrightarrow> trim s = s"
proof (cases s rule: rev_cases)
  case (snoc ys y)
  assume "s = [] \<or> (\<not> is_ws (hd s) \<and> \<not> is_ws (last s))"
  with snoc have h: "\<not> is_ws (hd s)" "\<not> is_ws y" by auto
  have "dropWhile is_ws s = s" using h(1) by (cases s) auto
  with snoc h(2) show ?thesis by (simp add: trim_def)
qed (simp add: trim_def)

lemma digit_value_char: "n < 10 \<Longrightarrow> digit_value (char_of (48 + n)) = Some n"
  by (simp add: digit_value_def Let_def)

lemma digits_value_append:
  "digits_value acc (xs @ ys) = (case digits_value acc xs of None \<Rightarrow> None | Some a \<Rightarrow> digits_value a ys)"
  by (induction xs arbitrary: acc) (auto split: option.split)

lemma digits_value_nat_digits: "digits_value 0 (nat_digits n) = Some n"
proof (induction n rule: nat_digits.induct)
  case (1 n)
  then show ?case
  proof (cases "n < 10")
    case True
    then show ?thesis by (subst nat_digits.simps) (simp add: digit_value_char)
  next
    case False
    with 1 show ?thesis
      by (subst nat_digits.simps) (simp add: digits_value_append digit_value_char)
  qed
qed

lemma nat_digits_hd: "nat_digits n \<noteq> [] \<and> hd (nat_digits n) \<noteq> CHR ''+''"
proof (induction n rule: nat_digits.induct)
  case (1 n)
  have "char_of (48 + n) \<noteq> CHR ''+''" if "n < 10"
  proof
    assume "char_of (48 + n) = CHR ''+''"
    then have "(of_char (char_of (48 + n)) :: nat) = of_char (CHR ''+'')" by simp
    with that show False by simp
  qed
  with 1 show ?case by (subst (1 2) nat_digits.simps) auto
qed

lemma parse_uint_digits: "parse_uint mx (nat_digits n) = (if n \<le> mx then Some n else None)"
proof -
  obtain c cs where c: "nat_digits n = c # cs" "c \<noteq> CHR ''+''"
    using nat_digits_hd [of n] by (cases "nat_digits n") auto
  have "(case c # cs of CHR ''+'' # r \<Rightarrow> r | _ \<Rightarrow> c # cs) = c # cs"
    using c(2) by (auto split: list.split char.split bool.split)
  with c(1) digits_value_nat_digits [of n] show ?thesis by (simp add: parse_uint_def)
qed

lemma parse_uint_bound: "parse_uint mx s = Some n \<Longrightarrow> n \<le> mx"
  by (auto simp: parse_uint_def Let_def split: if_splits option.splits)

subsection \<open>Printed addresses\<close>

lemma to_digit_10: "to_digit 10 c = digit_value c"
  by (auto simp: to_digit_def digit_value_def Let_def)

lemma digits_value_mono: "digits_value acc ds = Some v \<Longrightarrow> acc \<le> v"
  by (induction ds arbitrary: acc) (fastforce split: option.splits)+

lemma read_digits_value:
  assumes "digits_value acc ds = Some v" "v \<le> mx" "k + length ds \<le> m" "rest = [] \<or> digit_value (hd rest) = None"
  shows "read_digits 10 mx (Some m) acc k (ds @ rest) = Some (v, k + length ds, rest)"
  using assms
proof (induction ds arbitrary: acc k)
  case Nil
  then show ?case by (cases rest) (auto simp: to_digit_10)
next
  case (Cons c ds)
  then obtain d where d: "digit_value c = Some d" "digits_value (10 * acc + d) ds = Some v"
    by (auto split: option.splits)
  with Cons digits_value_mono [OF d(2)] Cons.IH [OF d(2), of "Suc k"] show ?case
    by (simp add: to_digit_10 mult.commute)
qed

lemma nat_digits_length: "n < 1000 \<Longrightarrow> length (nat_digits n) \<le> 3"
  by (subst nat_digits.simps, simp, subst nat_digits.simps, simp, subst nat_digits.simps, simp)

lemma nat_digits_zero: "1 < length (nat_digits n) \<Longrightarrow> hd (nat_digits n) \<noteq> CHR ''0''"
proof (induction n rule: nat_digits.induct)
  case (1 n)
  have digit: "char_of (48 + k) \<noteq> CHR ''0''" if "0 < k" "k < 10" for k :: nat
  proof
    assume "char_of (48 + k) = CHR ''0''"
    then have "(of_char (char_of (48 + k)) :: nat) = of_char (CHR ''0'')" by simp
    with that show False by simp
  qed
  show ?case
  proof (cases "n < 10")
    case True
    with "1.prems" show ?thesis by (subst (asm) nat_digits.simps) simp
  next
    case False
    then have step: "nat_digits n = nat_digits (n div 10) @ [char_of (48 + n mod 10)]"
      by (subst nat_digits.simps) simp
    show ?thesis
    proof (cases "n div 10 < 10")
      case True
      then have "nat_digits (n div 10) = [char_of (48 + n div 10)]" by (subst nat_digits.simps) simp
      with step digit [of "n div 10"] True False show ?thesis by simp
    next
      case False
      then have "1 < length (nat_digits (n div 10))"
        using nat_digits_hd by (subst nat_digits.simps) simp
      with "1.IH" \<open>\<not> n < 10\<close> step nat_digits_hd [of "n div 10"] show ?thesis by simp
    qed
  qed
qed

lemma read_octet_display:
  assumes "rest = [] \<or> digit_value (hd rest) = None"
  shows "read_octet 0 (nat_digits (unat a) @ rest) = Some (a, rest)"
    "0 < i \<Longrightarrow> read_octet i (''.'' @ nat_digits (unat a) @ rest) = Some (a, rest)"
proof -
  have "unat a < 256" by (rule unat_byte_less)
  then have "read_digits 10 255 (Some 3) 0 0 (nat_digits (unat a) @ rest) =
      Some (unat a, length (nat_digits (unat a)), rest)"
    using read_digits_value [OF digits_value_nat_digits, of "unat a" 255 0 3 rest] assms nat_digits_length [of "unat a"]
    by simp
  moreover have "hd (nat_digits (unat a) @ rest) = hd (nat_digits (unat a))" "nat_digits (unat a) \<noteq> []"
    using nat_digits_hd [of "unat a"] by simp_all
  ultimately have "read_number 10 255 (Some 3) False (nat_digits (unat a) @ rest) = Some (unat a, rest)"
    using nat_digits_zero [of "unat a"] by (auto simp: read_number_def)
  then show "read_octet 0 (nat_digits (unat a) @ rest) = Some (a, rest)"
    "0 < i \<Longrightarrow> read_octet i (''.'' @ nat_digits (unat a) @ rest) = Some (a, rest)"
    by (simp_all add: read_octet_def read_separator_def)
qed

lemma read_ipv4_display:
  assumes "rest = [] \<or> digit_value (hd rest) = None"
  shows "parser_ipv4 (ipv4_display a @ rest) = Some (a, rest)"
proof (cases a)
  case (Ipv4Addr p q r t)
  have dot: "''.'' @ u = [] \<or> digit_value (hd (''.'' @ u)) = None" for u by (simp add: digit_value_def)
  show ?thesis
    using assms read_octet_display(1) [OF dot, of p] read_octet_display(2) [OF dot, of "1" q]
      read_octet_display(2) [OF dot, of "2" r] read_octet_display(2) [OF assms, of 3 t]
    by (simp add: Ipv4Addr parser_ipv4_def)
qed

text \<open>A printed IPv4 address is read back, also as an \<open>IpAddr\<close>.\<close>

lemma length_ipv4_display: "length (ipv4_display a) \<le> 15"
proof (cases a)
  case (Ipv4Addr p q r t)
  have "length (nat_digits (unat x)) \<le> 3" for x :: byte
    using unat_byte_less [of x] by (intro nat_digits_length) simp
  from this [of p] this [of q] this [of r] this [of t] show ?thesis by (simp add: Ipv4Addr)
qed

lemma parse_ip_display [simp]:
  "parse_ipv4 (ipv4_display a) = Some a" "parse_ip_addr (ipv4_display a) = Some (V4Addr a)"
  using read_ipv4_display [of "[]" a] length_ipv4_display [of a]
  by (simp_all add: parse_ipv4_def parse_ip_addr_def parse_with_def read_ip_addr_def)

lemma collect_read_lines:
  "collect_results (read_lines s) = (if list_all utf8_str (lines s) then Ok (lines s) else Err invalid_utf8)"
proof -
  have "collect_results (map (\<lambda>l. if utf8_str l then Ok l else Err invalid_utf8) ls) =
      (if list_all utf8_str ls then Ok ls else Err invalid_utf8)" for ls
    by (induction ls) auto
  then show ?thesis by (simp add: read_lines_def)
qed

end
