(* ===== verification/Options.thy ===== *)
theory Options
  imports Rust_Str Fake_Dns Dns_Upstream Net_Sys
begin

text \<open>
  \<open>crates/tun/src/option.rs\<close>: the settings, each read from an environment variable with a default, and
  \<open>parse_rules\<close> of \<open>fakedns.rs\<close>, which reads the rule file named by one of them. The environment is a
  function from names to values; a missing variable and one that is not Unicode are both \<open>None\<close>.
\<close>

section \<open>Reading a setting\<close>

type_synonym env_vars = "string \<Rightarrow> string option"

definition get_env_var_or :: "(string \<Rightarrow> 'a option) \<Rightarrow> env_vars \<Rightarrow> string \<Rightarrow> 'a \<Rightarrow> 'a" where
  "get_env_var_or parse env key dflt =
     (case env key of
        Some v \<Rightarrow> (case parse v of Some x \<Rightarrow> x | None \<Rightarrow> dflt)
      | None \<Rightarrow> dflt)"

definition proto_from_str :: "string \<Rightarrow> dns_upstream_proto option" where
  "proto_from_str s =
     (let t = to_ascii_lowercase s in
      if t = ''tcp'' then Some Tcp else if t = ''udp'' then Some Udp else None)"

definition parse_u8 :: "string \<Rightarrow> byte option" where
  "parse_u8 s = map_option of_nat (parse_uint 255 s)"

definition parse_u16 :: "string \<Rightarrow> u16 option" where
  "parse_u16 s = map_option of_nat (parse_uint 65535 s)"

definition parse_u32 :: "string \<Rightarrow> u32 option" where
  "parse_u32 s = map_option of_nat (parse_uint 4294967295 s)"

definition parse_u64 :: "string \<Rightarrow> u64 option" where
  "parse_u64 s = map_option of_nat (parse_uint 18446744073709551615 s)"

definition parse_usize :: "string \<Rightarrow> nat option" where
  "parse_usize s = parse_uint 18446744073709551615 s"

section \<open>The settings\<close>

record options =
  UDP_RECV_CH_SIZE :: nat
  NETSTACK_BUFF_SIZE :: nat
  NETSTACK_UDP_BUFF_SIZE :: nat
  OUTBOUND_CONNECT_TIMEOUT :: u64
  TUN_DEFAULT_NAME :: string
  LINK_COPY_TIMEOUT :: u64
  LINK_BUFFER_SIZE :: nat
  MAX_UDP_UPSTREAM :: byte
  UDP_SESSION_TIMEOUT :: u64
  DNS_SESSION_TIMEOUT :: u64
  TCP_KEEPALIVE_TIMEOUT :: u64
  TCP_KEEPALIVE_INTERVAL :: u64
  TCP_KEEPALIVE_RETRIES :: u32
  DNS_PROXY_LISTEN_PORT :: u16
  DNS_UPSTREAM_PROTO :: dns_upstream_proto
  GFW_RULE_PATH :: string
  NETSTACK_OUTPUT_CHANNEL_SIZE :: nat
  NETSTACK_TCP_UPLINK_CHANNEL_SIZE :: nat
  NETSTACK_UDP_UPLINK_CHANNEL_SIZE :: nat
  SOCKS5_ADDR :: socket_addr
  TUN_ADDRESS :: ipv4_addr
  TUN_GATEWAY :: ipv4_addr
  TUN_NETMASK :: ipv4_addr
  OUTBOUND_INTERFACES :: "string list"

definition if_name :: "platform \<Rightarrow> string" where
  "if_name plat = (case plat of Linux \<Rightarrow> ''tun200'' | Macos \<Rightarrow> ''utun200'')"

definition outbound_interfaces :: "env_vars \<Rightarrow> string list" where
  "outbound_interfaces env =
     (case env ''OUTBOUND_INTERFACES'' of
        Some interfaces \<Rightarrow> map trim (split_on CHR '','' interfaces)
      | None \<Rightarrow> [])"

definition read_options :: "platform \<Rightarrow> env_vars \<Rightarrow> options" where
  "read_options plat env =
     \<lparr>UDP_RECV_CH_SIZE = get_env_var_or parse_usize env ''UDP_RECV_CH_SIZE'' 256,
      NETSTACK_BUFF_SIZE = get_env_var_or parse_usize env ''NETSTACK_BUFF_SIZE'' 512,
      NETSTACK_UDP_BUFF_SIZE = get_env_var_or parse_usize env ''NETSTACK_UDP_BUFF_SIZE'' 256,
      OUTBOUND_CONNECT_TIMEOUT = get_env_var_or parse_u64 env ''TCP_CONNECT_TIMEOUT'' 5,
      TUN_DEFAULT_NAME = get_env_var_or Some env ''TUN_DEFAULT_NAME'' (if_name plat),
      LINK_COPY_TIMEOUT = get_env_var_or parse_u64 env ''LINK_COPY_TIMEOUT'' 15,
      LINK_BUFFER_SIZE = get_env_var_or parse_usize env ''LINK_BUFFER_SIZE'' 2,
      MAX_UDP_UPSTREAM = get_env_var_or parse_u8 env ''MAX_UDP_UPSTREAM'' 3,
      UDP_SESSION_TIMEOUT = get_env_var_or parse_u64 env ''UDP_SESSION_TIMEOUT'' 15,
      DNS_SESSION_TIMEOUT = get_env_var_or parse_u64 env ''DNS_SESSION_TIMEOUT'' 5,
      TCP_KEEPALIVE_TIMEOUT = get_env_var_or parse_u64 env ''TCP_KEEPALIVE_TIMEOUT'' 600,
      TCP_KEEPALIVE_INTERVAL = get_env_var_or parse_u64 env ''TCP_KEEPALIVE_INTERVAL'' 60,
      TCP_KEEPALIVE_RETRIES = get_env_var_or parse_u32 env ''TCP_KEEPALIVE_RETRIES'' 5,
      DNS_PROXY_LISTEN_PORT = get_env_var_or parse_u16 env ''DNS_PROXY_LISTEN_PORT'' 10880,
      DNS_UPSTREAM_PROTO = get_env_var_or proto_from_str env ''DNS_UPSTREAM_PROTO'' Udp,
      GFW_RULE_PATH = get_env_var_or Some env ''GFW_RULE_PATH'' ''gfw.txt'',
      NETSTACK_OUTPUT_CHANNEL_SIZE = get_env_var_or parse_usize env ''NETSTACK_OUTPUT_CHANNEL_SIZE'' 512,
      NETSTACK_TCP_UPLINK_CHANNEL_SIZE = get_env_var_or parse_usize env ''NETSTACK_TCP_UPLINK_CHANNEL_SIZE'' 256,
      NETSTACK_UDP_UPLINK_CHANNEL_SIZE = get_env_var_or parse_usize env ''NETSTACK_UDP_UPLINK_CHANNEL_SIZE'' 256,
      SOCKS5_ADDR = get_env_var_or parse_socket_addr env ''SOCKS5_ADDR''
        (V4 \<lparr>v4_ip = Ipv4Addr 127 0 0 1, v4_port = 1086\<rparr>),
      TUN_ADDRESS = get_env_var_or parse_ipv4 env ''TUN_ADDRESS'' (Ipv4Addr 192 16 0 1),
      TUN_GATEWAY = get_env_var_or parse_ipv4 env ''TUN_GATEWAY'' (Ipv4Addr 192 16 0 1),
      TUN_NETMASK = get_env_var_or parse_ipv4 env ''TUN_NETMASK'' (Ipv4Addr 255 255 255 0),
      OUTBOUND_INTERFACES = outbound_interfaces env\<rparr>"

section \<open>The rule file\<close>

text \<open>
  What the file system answers for a path: an error of the existence test, no file, an error of
  opening, or the content. A line that is not UTF-8 is an error of reading.
\<close>

datatype file_state = FsError io_error | NoFile | OpenError io_error | Content string

datatype rules_error = RulesIo io_error | RulesMissing string

definition parse_rules :: "(string \<Rightarrow> file_state) \<Rightarrow> string \<Rightarrow> (string list, rules_error) result" where
  "parse_rules fs path =
     (case fs path of
        FsError e \<Rightarrow> Err (RulesIo e)
      | NoFile \<Rightarrow> Err (RulesMissing path)
      | OpenError e \<Rightarrow> Err (RulesIo e)
      | Content s \<Rightarrow>
        (case collect_results (map (map_result trim) (read_lines s)) of
           Ok ls \<Rightarrow> Ok ls
         | Err e \<Rightarrow> Err (RulesIo e)
         | Panic m \<Rightarrow> Panic m))"

lemma collect_map: "collect_results (map (map_result f) rs) = map_result (map f) (collect_results rs)"
proof (induction rs)
  case (Cons r rs)
  then show ?case by (cases r; cases "collect_results rs") auto
qed simp

lemma parse_rules_content:
  "fs path = Content s \<Longrightarrow> parse_rules fs path =
     (if list_all utf8_str (lines s) then Ok (map trim (lines s)) else Err (RulesIo invalid_utf8))"
  by (simp add: parse_rules_def collect_map collect_read_lines)

section \<open>Properties\<close>

text \<open>
  The interface list is read back: names joined by commas, each possibly surrounded by white
  space, give exactly the names. A variable that is set but empty gives one interface with an empty
  name, while an unset variable gives none.
\<close>

theorem outbound_interfaces_list:
  assumes "\<forall>p \<in> set ps. CHR '','' \<notin> set p" "ps \<noteq> []"
    and "env ''OUTBOUND_INTERFACES'' = Some (concat (map (\<lambda>p. p @ '','') (butlast ps)) @ last ps)"
  shows "outbound_interfaces env = map trim ps
    \<and> outbound_interfaces (\<lambda>_. Some []) = [[]] \<and> outbound_interfaces (\<lambda>_. None) = []"
  using split_on_join [OF assms(2,1)] assms(3) by (simp add: outbound_interfaces_def trim_def)

theorem outbound_interfaces_list_witness:
  "outbound_interfaces (\<lambda>_. Some ''en0, en1'') = [''en0'', ''en1'']"
proof -
  have "outbound_interfaces (\<lambda>_. Some ''en0, en1'') = map trim [''en0'', '' en1'']"
    using outbound_interfaces_list [of "[''en0'', '' en1'']" "\<lambda>_. Some ''en0, en1''"] by simp
  also have "\<dots> = [''en0'', ''en1'']" by (simp add: trim_def is_ws_def)
  finally show ?thesis .
qed

text \<open>A numeric setting is the number printed in its variable, when that is in range.\<close>

lemma numeric_setting:
  assumes "env ''MAX_UDP_UPSTREAM'' = Some (nat_digits n)"
  shows "MAX_UDP_UPSTREAM (read_options plat env) = (if n \<le> 255 then of_nat n else 3)"
  using assms by (simp add: read_options_def get_env_var_or_def parse_u8_def parse_uint_digits)

text \<open>
  A blank line in the rule file becomes the empty rule, which matches every name.
\<close>

lemma blank_rule_accepts:
  assumes "parse_rules fs path = Ok rs" "[] \<in> set rs"
  shows "accept (set_filter s rs) domain"
  using assms(2) by (intro accept_blank_rule) (simp add: set_filter_def)

text \<open>
  C35: the rule file as rules. Every line, trimmed, is one rule, and the resolver then accepts exactly
  the names that contain one of them; so a file with a blank line makes it accept every name.
\<close>

theorem rule_file_accepts:
  assumes "fs path = Content s" "parse_rules fs path = Ok rs"
  shows "(accept (set_filter fd rs) domain \<longleftrightarrow>
      (\<exists>l \<in> set (lines s). trim l = ''*'' \<or> str_contains domain (trim l)))
    \<and> ([] \<in> set (lines s) \<longrightarrow> accept (set_filter fd rs) domain)"
proof -
  have rs: "rs = map trim (lines s)" using assms by (simp add: parse_rules_content split: if_splits)
  have "[] \<in> set rs" if "[] \<in> set (lines s)" using that by (force simp: rs trim_def)
  then show ?thesis
    using blank_rule_accepts [OF assms(2)] by (auto simp: rs accept_def set_filter_def accept_rules_iff)
qed

theorem rule_file_accepts_witness:
  "accept (set_filter fakedns_init (case parse_rules (\<lambda>_. Content (''google'' @ [CHR 0x0A, CHR 0x0A] @ ''t.co'')) ''gfw.txt'' of
     Ok rs \<Rightarrow> rs | _ \<Rightarrow> [])) ''example.org''"
proof -
  let ?s = "''google'' @ [CHR 0x0A, CHR 0x0A] @ ''t.co''"
  let ?fs = "\<lambda>_. Content ?s"
  have p: "parse_rules ?fs ''gfw.txt'' = Ok (map trim (lines ?s))"
    by (simp add: parse_rules_content lines_def strip_cr_def utf8_str_def)
  have "[] \<in> set (lines ?s)" by (simp add: lines_def strip_cr_def)
  then have "accept (set_filter fakedns_init (map trim (lines ?s))) ''example.org''"
    using rule_file_accepts [OF refl p, of fakedns_init "''example.org''"] by blast
  then show ?thesis unfolding p result.case .
qed

end
