(* ===== verification/Cmd.thy ===== *)
theory Cmd
  imports Rust_Str Net_Sys
begin

text \<open>
  \<open>crates/tun/src/cmd.rs\<close>: finding the default gateway and the address of an interface and changing
  the default route, by running the tools of the operating system, on Linux and on macOS. The tools
  are a parameter: a function that takes a program, its arguments and a world and gives what
  \<open>Command::output\<close> or \<open>Command::status\<close> returns and the world afterwards. The exit status is not
  looked at by the code, so only whether the program could be started matters.
\<close>

section \<open>Running a program\<close>

record 'w tools =
  run_output :: "string \<Rightarrow> string list \<Rightarrow> 'w \<Rightarrow> string io_result \<times> 'w"
  run_status :: "string \<Rightarrow> string list \<Rightarrow> 'w \<Rightarrow> unit io_result \<times> 'w"

datatype cmd_error = CmdIo io_error | AddrParse string

type_synonym ('a, 'w) cmd = "'w \<Rightarrow> ('a, cmd_error) result \<times> 'w"

text \<open>The standard output, then a function of it.\<close>

definition with_output ::
    "'w tools \<Rightarrow> string \<Rightarrow> string list \<Rightarrow> (string \<Rightarrow> ('a, cmd_error) result) \<Rightarrow> ('a, 'w) cmd" where
  "with_output T prog args f w =
     (case run_output T prog args w of
        (Ok stdout, w') \<Rightarrow> (f stdout, w')
      | (Err e, w') \<Rightarrow> (Err (CmdIo e), w')
      | (Panic m, w') \<Rightarrow> (Panic m, w'))"

text \<open>\<open>status().expect(msg)\<close>\<close>

definition run_expect :: "'w tools \<Rightarrow> string \<Rightarrow> string \<Rightarrow> string list \<Rightarrow> (unit, 'w) cmd" where
  "run_expect T msg prog args w =
     (case run_status T prog args w of
        (Ok _, w') \<Rightarrow> (Ok (), w')
      | (_, w') \<Rightarrow> (Panic msg, w'))"

text \<open>Two operations with \<open>?\<close> between them.\<close>

definition cmd_then :: "('a, 'w) cmd \<Rightarrow> ('a \<Rightarrow> ('b, 'w) cmd) \<Rightarrow> ('b, 'w) cmd" where
  "cmd_then c f w =
     (case c w of
        (Ok a, w') \<Rightarrow> f a w'
      | (Err e, w') \<Rightarrow> (Err e, w')
      | (Panic m, w') \<Rightarrow> (Panic m, w'))"

text \<open>A loop over lines that updates a value and stops at the first error.\<close>

fun fold_lines :: "(string \<Rightarrow> 'a \<Rightarrow> ('a, cmd_error) result) \<Rightarrow> string io_result list \<Rightarrow> 'a \<Rightarrow> ('a, cmd_error) result" where
  "fold_lines f [] a = Ok a"
| "fold_lines f (r # rs) a =
     (case r of
        Ok line \<Rightarrow> (case f line a of Ok a' \<Rightarrow> fold_lines f rs a' | Err e \<Rightarrow> Err e | Panic m \<Rightarrow> Panic m)
      | Err e \<Rightarrow> Err (CmdIo e)
      | Panic m \<Rightarrow> Panic m)"

text \<open>\<open>rs[i]\<close>\<close>

definition index_word :: "string list \<Rightarrow> nat \<Rightarrow> (string, cmd_error) result" where
  "index_word rs i = (if i < length rs then Ok (rs ! i) else Panic ''index out of bounds'')"

section \<open>Linux\<close>

definition linux_gw_line :: "string \<Rightarrow> string \<times> string \<Rightarrow> (string \<times> string, cmd_error) result" where
  "linux_gw_line line acc =
     (if str_contains line ''via'' then
        (let rs = split_whitespace line in
         case index_word rs 2 of
           Ok gw \<Rightarrow> (case index_word rs 4 of Ok iface \<Rightarrow> Ok (gw, iface) | Err e \<Rightarrow> Err e | Panic m \<Rightarrow> Panic m)
         | Err e \<Rightarrow> Err e
         | Panic m \<Rightarrow> Panic m)
      else Ok acc)"

definition linux_get_default_gw_iface :: "'w tools \<Rightarrow> (string \<times> string, 'w) cmd" where
  "linux_get_default_gw_iface T =
     with_output T ''ip'' [''route'', ''get'', ''1'']
       (\<lambda>out. fold_lines linux_gw_line (read_lines out) ([], []))"

definition linux_addr_line :: "string \<Rightarrow> string \<Rightarrow> (string, cmd_error) result" where
  "linux_addr_line line ip =
     (if str_contains line ''inet'' then
        (let ws = split_whitespace line in
         if 1 < length ws then Ok (hd (split_on CHR ''/'' (ws ! 1))) else Panic ''unwrap on None'')
      else Ok ip)"

definition parse_addr :: "string \<Rightarrow> (ip_addr, cmd_error) result" where
  "parse_addr s = (case parse_ip_addr s of Some a \<Rightarrow> Ok a | None \<Rightarrow> Err (AddrParse s))"

definition linux_get_if_addr :: "'w tools \<Rightarrow> string \<Rightarrow> (ip_addr, 'w) cmd" where
  "linux_get_if_addr T ifc =
     with_output T ''ip'' [''addr'', ''show'', ''dev'', ifc]
       (\<lambda>out. case fold_lines linux_addr_line (read_lines out) [] of
          Ok ip \<Rightarrow> parse_addr ip | Err e \<Rightarrow> Err e | Panic m \<Rightarrow> Panic m)"

definition linux_add_default_ipv4_route :: "'w tools \<Rightarrow> string \<Rightarrow> string \<Rightarrow> bool \<Rightarrow> (unit, 'w) cmd" where
  "linux_add_default_ipv4_route T gw iface primary =
     run_expect T ''failed to execute command'' ''ip''
       (if primary then [''route'', ''add'', ''default'', ''via'', gw, ''table'', ''main'']
        else [''route'', ''add'', ''default'', ''via'', gw, ''dev'', iface, ''table'', ''default''])"

definition linux_delete_default_ipv4_route :: "'w tools \<Rightarrow> string option \<Rightarrow> (unit, 'w) cmd" where
  "linux_delete_default_ipv4_route T ifscope =
     run_expect T ''failed to execute command'' ''ip''
       (case ifscope of
          Some _ \<Rightarrow> [''route'', ''del'', ''default'', ''table'', ''default'']
        | None \<Rightarrow> [''route'', ''del'', ''default'', ''table'', ''main''])"

section \<open>macOS\<close>

definition macos_gw_line :: "string \<Rightarrow> string \<times> string \<Rightarrow> (string \<times> string, cmd_error) result" where
  "macos_gw_line line acc =
     (let rs = split_whitespace line in
      case (if str_contains line ''gateway'' then index_word rs 1 else Ok (fst acc)) of
        Ok gw \<Rightarrow>
          (case (if str_contains line ''interface'' then index_word rs 1 else Ok (snd acc)) of
             Ok iface \<Rightarrow> Ok (gw, iface) | Err e \<Rightarrow> Err e | Panic m \<Rightarrow> Panic m)
      | Err e \<Rightarrow> Err e
      | Panic m \<Rightarrow> Panic m)"

definition macos_get_default_gw_iface :: "'w tools \<Rightarrow> (string \<times> string, 'w) cmd" where
  "macos_get_default_gw_iface T =
     with_output T ''route'' [''-n'', ''get'', ''1'']
       (\<lambda>out. fold_lines macos_gw_line (read_lines out) ([], []))"

text \<open>
  \<open>trim_ascii\<close> keeps the vertical tab. Bytes that are not UTF-8 are replaced by a character that no
  address contains, so they fail to parse either way.
\<close>

definition trim_ascii :: "string \<Rightarrow> string" where
  "trim_ascii s = (let ws = (\<lambda>c. is_ws c \<and> c \<noteq> CHR 0x0B) in rev (dropWhile ws (rev (dropWhile ws s))))"

definition macos_get_if_addr :: "'w tools \<Rightarrow> string \<Rightarrow> (ip_addr, 'w) cmd" where
  "macos_get_if_addr T ifc =
     with_output T ''ipconfig'' [''getifaddr'', ifc] (\<lambda>out. parse_addr (trim_ascii out))"

definition macos_delete_default_ipv4_route :: "'w tools \<Rightarrow> string option \<Rightarrow> (unit, 'w) cmd" where
  "macos_delete_default_ipv4_route T ifscope =
     run_expect T ''delete route fail.'' ''route''
       (case ifscope of
          Some ifscope \<Rightarrow> [''delete'', ''-inet'', ''default'', ''-ifscope'', ifscope]
        | None \<Rightarrow> [''delete'', ''-inet'', ''default''])"

definition macos_add_default_ipv4_route :: "'w tools \<Rightarrow> string \<Rightarrow> string \<Rightarrow> bool \<Rightarrow> (unit, 'w) cmd" where
  "macos_add_default_ipv4_route T gw iface primary =
     run_expect T ''set the route error.'' ''route''
       (if primary then [''add'', ''-inet'', ''default'', gw]
        else [''add'', ''-inet'', ''default'', gw, ''-ifscope'', iface])"

section \<open>The choice of the platform\<close>

definition get_default_gw_iface :: "platform \<Rightarrow> 'w tools \<Rightarrow> (string \<times> string, 'w) cmd" where
  "get_default_gw_iface plat =
     (case plat of Linux \<Rightarrow> linux_get_default_gw_iface | Macos \<Rightarrow> macos_get_default_gw_iface)"

definition get_if_addr :: "platform \<Rightarrow> 'w tools \<Rightarrow> string \<Rightarrow> (ip_addr, 'w) cmd" where
  "get_if_addr plat = (case plat of Linux \<Rightarrow> linux_get_if_addr | Macos \<Rightarrow> macos_get_if_addr)"

definition add_default_ipv4_route :: "platform \<Rightarrow> 'w tools \<Rightarrow> string \<Rightarrow> string \<Rightarrow> bool \<Rightarrow> (unit, 'w) cmd" where
  "add_default_ipv4_route plat =
     (case plat of Linux \<Rightarrow> linux_add_default_ipv4_route | Macos \<Rightarrow> macos_add_default_ipv4_route)"

definition delete_default_ipv4_route :: "platform \<Rightarrow> 'w tools \<Rightarrow> string option \<Rightarrow> (unit, 'w) cmd" where
  "delete_default_ipv4_route plat =
     (case plat of Linux \<Rightarrow> linux_delete_default_ipv4_route | Macos \<Rightarrow> macos_delete_default_ipv4_route)"

section \<open>Properties\<close>

text \<open>White space between words, as the tools print it.\<close>

definition word_ok :: "string \<Rightarrow> bool" where
  "word_ok w \<longleftrightarrow> w \<noteq> [] \<and> list_all (\<lambda>c. \<not> is_ws c) w"

lemma split_whitespace_word:
  assumes "word_ok w"
  shows "split_whitespace w = [w]" "is_ws c \<Longrightarrow> split_whitespace (w @ c # t) = w # split_whitespace t"
proof -
  let ?f = "\<lambda>c. if is_ws c then CHR '' '' else c"
  have m: "map ?f w = w" using assms by (simp add: word_ok_def list_all_iff map_idI)
  have sp: "CHR '' '' \<notin> set w" using assms by (auto simp: word_ok_def list_all_iff is_ws_def)
  show "split_whitespace w = [w]" using m split_on_plain [OF sp] assms by (simp add: split_whitespace_def word_ok_def)
  show "split_whitespace (w @ c # t) = w # split_whitespace t" if "is_ws c"
    using m split_on_append [OF sp] assms that by (simp add: split_whitespace_def word_ok_def)
qed

lemma split_whitespace_skip: "is_ws c \<Longrightarrow> split_whitespace (c # t) = split_whitespace t"
  by (simp add: split_whitespace_def)

lemma fold_lines_append:
  "fold_lines f (rs @ ss) a =
     (case fold_lines f rs a of Ok a' \<Rightarrow> fold_lines f ss a' | Err e \<Rightarrow> Err e | Panic m \<Rightarrow> Panic m)"
  by (induction rs arbitrary: a) (simp_all split: result.split)

lemma read_lines_ok: "list_all utf8_str (lines s) \<Longrightarrow> read_lines s = map Ok (lines s)"
  by (simp add: read_lines_def list_all_iff)

lemma fold_lines_idle:
  "\<forall>l \<in> set ls. f l a = Ok a \<Longrightarrow> fold_lines f (map Ok ls) a = Ok a"
  by (induction ls) auto

text \<open>
  The default gateway on Linux. When the tool prints a line with the destination, \<open>via\<close>, the
  gateway, \<open>dev\<close> and the interface, and no later line contains \<open>via\<close>, the gateway and the interface
  are returned; when no line contains \<open>via\<close>, as for a default route without a gateway, two empty
  strings are returned instead of an error.
\<close>

theorem linux_gateway_line:
  assumes "run_output T ''ip'' [''route'', ''get'', ''1''] w = (Ok out, w')" "list_all utf8_str (lines out)"
    and "word_ok dst" "word_ok gw" "word_ok iface"
    and "\<forall>l \<in> set rest. \<not> str_contains l ''via''"
  shows "(lines out = (dst @ '' via '' @ gw @ '' dev '' @ iface @ '' '' @ extra) # rest \<longrightarrow>
      linux_get_default_gw_iface T w = (Ok (gw, iface), w'))
    \<and> (lines out = rest \<longrightarrow> linux_get_default_gw_iface T w = (Ok ([], []), w'))"
proof -
  let ?l = "dst @ '' via '' @ gw @ '' dev '' @ iface @ '' '' @ extra"
  have ws: "is_ws CHR '' ''" by (simp add: is_ws_def)
  have via: "word_ok ''via''" "word_ok ''dev''" by (simp_all add: word_ok_def is_ws_def)
  have "split_whitespace ?l = dst # ''via'' # gw # ''dev'' # iface # split_whitespace extra"
    using split_whitespace_word(2) [OF assms(3) ws] split_whitespace_word(2) [OF via(1) ws]
      split_whitespace_word(2) [OF assms(4) ws] split_whitespace_word(2) [OF via(2) ws]
      split_whitespace_word(2) [OF assms(5) ws] by simp
  moreover have "str_contains ?l ''via''"
    unfolding str_contains_iff by (rule exI [of _ "dst @ '' ''"], rule exI [of _ "'' '' @ gw @ '' dev '' @ iface @ '' '' @ extra"]) simp
  ultimately have l: "linux_gw_line ?l a = Ok (gw, iface)" for a
    unfolding linux_gw_line_def by (simp add: index_word_def)
  have rest: "fold_lines linux_gw_line (map Ok rest) a = Ok a" for a
    using assms(6) by (intro fold_lines_idle) (auto simp: linux_gw_line_def)
  show ?thesis
    using assms(1) read_lines_ok [OF assms(2)] rest l
    by (auto simp: linux_get_default_gw_iface_def with_output_def simp del: append_assoc append_Cons)
qed

lemma addr_line_keeps:
  "\<forall>k \<in> set ls. str_contains k ''inet'' \<longrightarrow> 1 < length (split_whitespace k) \<Longrightarrow>
   \<exists>ip'. fold_lines linux_addr_line (map Ok ls) ip = Ok ip'"
proof (induction ls arbitrary: ip)
  case (Cons l ls)
  then show ?case by (auto simp: linux_addr_line_def Let_def)
qed simp

text \<open>
  C37: the address of an interface on Linux is taken from the last line that contains \<open>inet\<close>, which
  \<open>inet6\<close> does. So for an interface with an IPv4 and an IPv6 address, listed in this order, the IPv6
  address is returned.
\<close>

theorem linux_if_addr_last:
  assumes "run_output T ''ip'' [''addr'', ''show'', ''dev'', ifc] w = (Ok out, w')"
    and "list_all utf8_str (lines out)" "lines out = before @ line # after"
    and "\<forall>k \<in> set (before @ [line]). str_contains k ''inet'' \<longrightarrow> 1 < length (split_whitespace k)"
    and "str_contains line ''inet''" "\<forall>k \<in> set after. \<not> str_contains k ''inet''"
  shows "linux_get_if_addr T ifc w = (parse_addr (hd (split_on CHR ''/'' (split_whitespace line ! 1))), w')"
proof -
  obtain ip where ip: "fold_lines linux_addr_line (map Ok before) [] = Ok ip"
    using addr_line_keeps [of before "[]"] assms(4) by auto
  have "fold_lines linux_addr_line (map Ok after) a = Ok a" for a
    using assms(6) by (intro fold_lines_idle) (auto simp: linux_addr_line_def)
  then have "fold_lines linux_addr_line (map Ok (lines out)) [] = Ok (hd (split_on CHR ''/'' (split_whitespace line ! 1)))"
    using assms(4,5) ip by (simp add: assms(3) fold_lines_append linux_addr_line_def)
  then show ?thesis using assms(1) read_lines_ok [OF assms(2)]
    by (simp add: linux_get_if_addr_def with_output_def)
qed

section \<open>Examples\<close>

text \<open>The output of the two tools on a host with a gateway and with both kinds of address.\<close>

definition sample_route :: string where
  "sample_route = ''1.0.0.0 via 10.0.0.1 dev eth0 src 10.0.0.5'' @ [CHR 0x0A] @ ''    cache'' @ [CHR 0x0A]"

definition sample_addrs :: string where
  "sample_addrs = ''2: eth0: <UP>'' @ [CHR 0x0A] @ ''    inet 10.0.0.5/24 brd'' @ [CHR 0x0A]
     @ ''    inet6 fe80::1/64'' @ [CHR 0x0A]"

definition sample_tools :: "unit tools" where
  "sample_tools = \<lparr>run_output = (\<lambda>prog args w. (Ok (if args = [''route'', ''get'', ''1''] then sample_route else sample_addrs), w)),
     run_status = (\<lambda>prog args w. (Ok (), w))\<rparr>"

lemma sample_route_lines: "lines sample_route = [''1.0.0.0 via 10.0.0.1 dev eth0 src 10.0.0.5'', ''    cache'']"
  by (simp add: sample_route_def lines_def strip_cr_def)

lemma sample_addrs_lines: "lines sample_addrs = [''2: eth0: <UP>'', ''    inet 10.0.0.5/24 brd'', ''    inet6 fe80::1/64'']"
  by (simp add: sample_addrs_def lines_def strip_cr_def)

theorem linux_gateway_line_witness:
  "linux_get_default_gw_iface sample_tools () = (Ok (''10.0.0.1'', ''eth0''), ())"
proof -
  have "run_output sample_tools ''ip'' [''route'', ''get'', ''1''] () = (Ok sample_route, ())"
    by (simp add: sample_tools_def)
  moreover have "list_all utf8_str (lines sample_route)" by (simp add: sample_route_lines utf8_str_def)
  moreover have "word_ok ''1.0.0.0''" "word_ok ''10.0.0.1''" "word_ok ''eth0''" by (simp_all add: word_ok_def is_ws_def)
  moreover have "\<forall>l \<in> set [''    cache'']. \<not> str_contains l ''via''" by simp
  ultimately show ?thesis
    using linux_gateway_line [of sample_tools "()" sample_route "()" "''1.0.0.0''" "''10.0.0.1''" "''eth0''"
        "[''    cache'']" "''src 10.0.0.5''"] by (simp add: sample_route_lines)
qed

lemma sample_link_local: "parse_ip_addr ''fe80::1'' = Some (V6Addr (Ipv6Addr 0xFE80 0 0 0 0 0 0 1))"
proof -
  have "read_groups 8 0 ''fe80::1'' = ([0xFE80], False, ''::1'')"
    by (simp add: read_groups.simps [of 8 0] read_groups.simps [of 8 "Suc 0"] parser_ipv4_def read_octet_def
        read_separator_def read_number_def to_digit_def)
  moreover have "read_groups 6 0 ''1'' = ([1], False, [])"
    by (simp add: read_groups.simps [of 6 0] read_groups.simps [of 6 "Suc 0"] parser_ipv4_def read_octet_def
        read_separator_def read_number_def to_digit_def)
  moreover have "parser_ipv4 ''fe80::1'' = None"
    by (simp add: parser_ipv4_def read_octet_def read_separator_def read_number_def to_digit_def)
  ultimately show ?thesis
    by (simp add: parse_ip_addr_def parse_with_def read_ip_addr_def parser_ipv6_def ipv6_of_segments_def
        nth_append nth_Cons')
qed

theorem linux_if_addr_last_witness:
  "linux_get_if_addr sample_tools ''eth0'' () = (Ok (V6Addr (Ipv6Addr 0xFE80 0 0 0 0 0 0 1)), ())"
proof -
  let ?l = "''    inet6 fe80::1/64''"
  have "run_output sample_tools ''ip'' [''addr'', ''show'', ''dev'', ''eth0''] () = (Ok sample_addrs, ())"
    by (simp add: sample_tools_def)
  moreover have "list_all utf8_str (lines sample_addrs)" by (simp add: sample_addrs_lines utf8_str_def)
  moreover have "lines sample_addrs = [''2: eth0: <UP>'', ''    inet 10.0.0.5/24 brd''] @ ?l # []"
    by (simp add: sample_addrs_lines)
  moreover have "\<forall>k \<in> set ([''2: eth0: <UP>'', ''    inet 10.0.0.5/24 brd''] @ [?l]).
      str_contains k ''inet'' \<longrightarrow> 1 < length (split_whitespace k)"
    by (simp add: split_whitespace_def is_ws_def)
  moreover have "str_contains ?l ''inet''" by simp
  ultimately have "linux_get_if_addr sample_tools ''eth0'' () =
      (parse_addr (hd (split_on CHR ''/'' (split_whitespace ?l ! 1))), ())"
    by (rule linux_if_addr_last) simp
  moreover have "split_whitespace ?l = [''inet6'', ''fe80::1/64'']" by (simp add: split_whitespace_def is_ws_def)
  ultimately show ?thesis by (simp add: parse_addr_def sample_link_local)
qed

end
