(* ===== verification/Tun_Setup.thy ===== *)
theory Tun_Setup
  imports Cmd Cancelable Fake_Dns Options Tcp
begin

text \<open>
  \<open>crates/tun/src/lib.rs\<close>: building the tun device, replacing the default route while the tunnel runs,
  the monitor that watches the interfaces, and \<open>Tun::run\<close>, which starts everything and restores the
  routes at the end. The world the tools of \<open>Cmd\<close> act on is passed along; a tool may change it in any
  way, which also covers what happens between two commands. The crate that makes the device, the
  device's own answers and the start of the watcher and of the network stack are parameters.
\<close>

section \<open>The builder\<close>

datatype tun_error = TunIo io_error | TunOther string

record ('cfg, 'dev) tun_lib =
  tl_default :: 'cfg
  tl_address :: "ipv4_addr \<Rightarrow> 'cfg \<Rightarrow> 'cfg"
  tl_destination :: "ipv4_addr \<Rightarrow> 'cfg \<Rightarrow> 'cfg"
  tl_netmask :: "ipv4_addr \<Rightarrow> 'cfg \<Rightarrow> 'cfg"
  tl_tun_name :: "string \<Rightarrow> 'cfg \<Rightarrow> 'cfg"
  tl_mtu :: "u16 \<Rightarrow> 'cfg \<Rightarrow> 'cfg"
  tl_up :: "'cfg \<Rightarrow> 'cfg"
  tl_create :: "'cfg \<Rightarrow> ('dev, tun_error) result"

definition tun_builder_new :: "('cfg, 'dev) tun_lib \<Rightarrow> options \<Rightarrow> 'cfg" where
  "tun_builder_new B opts =
     (let cfg = tl_default B;
          cfg = tl_address B (TUN_ADDRESS opts) cfg;
          cfg = tl_destination B (TUN_GATEWAY opts) cfg;
          cfg = tl_netmask B (TUN_NETMASK opts) cfg;
          cfg = tl_tun_name B (TUN_DEFAULT_NAME opts) cfg
      in tl_up B cfg)"

definition builder_address :: "('cfg, 'dev) tun_lib \<Rightarrow> ipv4_addr \<Rightarrow> 'cfg \<Rightarrow> 'cfg" where
  "builder_address B addr cfg = tl_address B addr cfg"

definition builder_mtu :: "('cfg, 'dev) tun_lib \<Rightarrow> u16 \<Rightarrow> 'cfg \<Rightarrow> 'cfg" where
  "builder_mtu B m cfg = tl_mtu B m cfg"

definition builder_netmask :: "('cfg, 'dev) tun_lib \<Rightarrow> ipv4_addr \<Rightarrow> 'cfg \<Rightarrow> 'cfg" where
  "builder_netmask B netmask cfg = tl_netmask B netmask cfg"

definition builder_destination :: "('cfg, 'dev) tun_lib \<Rightarrow> ipv4_addr \<Rightarrow> 'cfg \<Rightarrow> 'cfg" where
  "builder_destination B destination cfg = tl_destination B destination cfg"

definition builder_build :: "('cfg, 'dev) tun_lib \<Rightarrow> 'cfg \<Rightarrow> 'dev io_result" where
  "builder_build B cfg =
     (case tl_create B cfg of
        Ok device \<Rightarrow> Ok device
      | Err (TunIo e) \<Rightarrow> Err e
      | Err (TunOther m) \<Rightarrow> Err (IoError Other m)
      | Panic m \<Rightarrow> Panic m)"

section \<open>The routes\<close>

record post_tun_setup =
  ps_gw :: string
  ps_iface :: string
  ps_default_gw :: string
  ps_default_iface :: string
  ps_default_iface_addr :: ip_addr

definition post_setup_new :: "platform \<Rightarrow> 'w tools \<Rightarrow> string \<Rightarrow> string \<Rightarrow> (post_tun_setup, 'w) cmd" where
  "post_setup_new plat T gw iface =
     cmd_then (get_default_gw_iface plat T) (\<lambda>(default_gw, default_iface).
     cmd_then (get_if_addr plat T default_iface) (\<lambda>default_iface_addr w.
       (Ok \<lparr>ps_gw = gw, ps_iface = iface, ps_default_gw = default_gw, ps_default_iface = default_iface,
            ps_default_iface_addr = default_iface_addr\<rparr>, w)))"

definition route_setup :: "platform \<Rightarrow> 'w tools \<Rightarrow> post_tun_setup \<Rightarrow> (unit, 'w) cmd" where
  "route_setup plat T ps =
     cmd_then (delete_default_ipv4_route plat T None) (\<lambda>_.
     cmd_then (add_default_ipv4_route plat T (ps_gw ps) (ps_iface ps) True) (\<lambda>_.
       add_default_ipv4_route plat T (ps_default_gw ps) (ps_default_iface ps) False))"

definition route_unsetup :: "platform \<Rightarrow> 'w tools \<Rightarrow> post_tun_setup \<Rightarrow> (unit, 'w) cmd" where
  "route_unsetup plat T ps =
     cmd_then (delete_default_ipv4_route plat T (Some (ps_default_iface ps))) (\<lambda>_.
       add_default_ipv4_route plat T (ps_default_gw ps) (ps_default_iface ps) True)"

section \<open>The monitor\<close>

datatype if_event = IfUp ip_addr | IfDown ip_addr

record 'w monitor =
  mo_setup :: post_tun_setup
  mo_default_ipaddr :: ip_addr
  mo_default_iface_up :: bool
  mo_notified :: nat
  mo_world :: 'w

definition monitor_new :: "post_tun_setup \<Rightarrow> 'w \<Rightarrow> 'w monitor" where
  "monitor_new ps w = \<lparr>mo_setup = ps, mo_default_ipaddr = ps_default_iface_addr ps, mo_default_iface_up = True,
     mo_notified = 0, mo_world = w\<rparr>"

text \<open>\<open>IfEvent::Up\<close>: \<open>rcv\<close> below is the number of receivers of the notification.\<close>

definition monitor_up :: "platform \<Rightarrow> 'w tools \<Rightarrow> 'w monitor \<Rightarrow> (unit, cmd_error) result \<times> 'w monitor" where
  "monitor_up plat T m =
     (if mo_default_iface_up m then (Ok (), m)
      else
        (case get_if_addr plat T (ps_default_iface (mo_setup m)) (mo_world m) of
           (Err e, w) \<Rightarrow> (Ok (), m\<lparr>mo_world := w\<rparr>)
         | (Panic s, w) \<Rightarrow> (Panic s, m\<lparr>mo_world := w\<rparr>)
         | (Ok ip, w) \<Rightarrow>
           (case post_setup_new plat T (ps_gw (mo_setup m)) (ps_iface (mo_setup m)) w of
              (Err e, w1) \<Rightarrow> (Ok (), m\<lparr>mo_world := w1\<rparr>)
            | (Panic s, w1) \<Rightarrow> (Panic s, m\<lparr>mo_world := w1\<rparr>)
            | (Ok rt, w1) \<Rightarrow>
              (let m1 = m\<lparr>mo_default_ipaddr := ip, mo_default_iface_up := True, mo_setup := rt\<rparr> in
               case route_setup plat T rt w1 of
                 (Panic s, w2) \<Rightarrow> (Panic s, m1\<lparr>mo_world := w2\<rparr>)
               | (_, w2) \<Rightarrow> (Ok (), m1\<lparr>mo_world := w2\<rparr>)))))"

definition monitor_event ::
    "platform \<Rightarrow> 'w tools \<Rightarrow> nat \<Rightarrow> if_event \<Rightarrow> 'w monitor \<Rightarrow> (unit, cmd_error) result \<times> 'w monitor" where
  "monitor_event plat T rcv ev m =
     (case ev of
        IfUp _ \<Rightarrow> monitor_up plat T m
      | IfDown addr \<Rightarrow>
        if mo_default_ipaddr m = addr then
          (if rcv = 0 then (Panic ''unwrap on Err'', m)
           else (Ok (), m\<lparr>mo_notified := mo_notified m + 1, mo_default_iface_up := False\<rparr>))
        else (Ok (), m))"

text \<open>One poll of the task: the events that are there, and the end of the loop.\<close>

datatype mon_out = MonPending | MonDone | MonPanicked string

type_synonym if_watcher = "if_event io_result option cancelable"

definition monitor_end :: "platform \<Rightarrow> 'w tools \<Rightarrow> 'w monitor \<Rightarrow> mon_out \<times> 'w monitor" where
  "monitor_end plat T m =
     (case route_unsetup plat T (mo_setup m) (mo_world m) of
        (Panic s, w) \<Rightarrow> (MonPanicked s, m\<lparr>mo_world := w\<rparr>)
      | (_, w) \<Rightarrow> (MonDone, m\<lparr>mo_world := w\<rparr>))"

lemma poll_next_shorter:
  "cancelable_poll_next c = (Ready (Some (CResult r)), c') \<Longrightarrow> length (cn_inner c') < length (cn_inner c)"
  by (auto simp: cancelable_poll_next_def poll_inner_def split: if_splits list.splits poll.splits option.splits)

function monitor_poll ::
    "platform \<Rightarrow> 'w tools \<Rightarrow> nat \<Rightarrow> if_watcher \<Rightarrow> 'w monitor \<Rightarrow> mon_out \<times> if_watcher \<times> 'w monitor" where
  "monitor_poll plat T rcv c m =
     (case cancelable_poll_next c of
        (Pending, c') \<Rightarrow> (MonPending, c', m)
      | (Ready (Some (CResult (Ok ev))), c') \<Rightarrow>
          (case monitor_event plat T rcv ev m of
             (Panic s, m') \<Rightarrow> (MonPanicked s, c', m')
           | (_, m') \<Rightarrow> monitor_poll plat T rcv c' m')
      | (_, c') \<Rightarrow> (case monitor_end plat T m of (out, m') \<Rightarrow> (out, c', m')))"
  by pat_completeness auto
termination
  by (relation "measure (\<lambda>(plat, T, rcv, c, m). length (cn_inner c))") (auto dest!: poll_next_shorter [OF sym] poll_next_shorter)

declare monitor_poll.simps [simp del]

fun monitor_polls ::
    "nat \<Rightarrow> platform \<Rightarrow> 'w tools \<Rightarrow> nat \<Rightarrow> if_watcher \<Rightarrow> 'w monitor \<Rightarrow> mon_out \<times> if_watcher \<times> 'w monitor" where
  "monitor_polls 0 plat T rcv c m = (MonPending, c, m)"
| "monitor_polls (Suc n) plat T rcv c m =
     (case monitor_poll plat T rcv c m of
        (MonPending, c', m') \<Rightarrow> monitor_polls n plat T rcv c' m'
      | r \<Rightarrow> r)"

section \<open>The packet loops\<close>

text \<open>
  The two loops between the device and the network stack: packets are sent on as they come, and the
  first error of the source or of the sink ends the loop, as does the end of the source. \<open>sink k\<close> is
  the answer to the \<open>k\<close>-th send; the result is what was sent.
\<close>

fun forward :: "(nat \<Rightarrow> unit io_result) \<Rightarrow> nat \<Rightarrow> 'p io_result list \<Rightarrow> 'p list" where
  "forward sink k [] = []"
| "forward sink k (item # items) =
     (case item of
        Ok pkg \<Rightarrow> (case sink k of Ok _ \<Rightarrow> pkg # forward sink (Suc k) items | _ \<Rightarrow> [])
      | _ \<Rightarrow> [])"

text \<open>The loop on incoming TCP streams.\<close>

definition tcp_accept :: "conn_key list \<Rightarrow> tcp_handle \<Rightarrow> tcp_handle" where
  "tcp_accept streams h = fold tcp_spawn streams h"

section \<open>\<open>Tun::run\<close>\<close>

text \<open>
  The answers of the device and of what is started, the receivers of the notification, and the
  effect of closing the device.
\<close>

record 'w run_env =
  re_plat :: platform
  re_tools :: "'w tools"
  re_destination :: "string io_result"
  re_tun_name :: "string io_result"
  re_watcher :: "unit io_result"
  re_netstack :: "unit io_result"
  re_files :: "string \<Rightarrow> file_state"
  re_close :: "'w \<Rightarrow> 'w"
  re_rcv :: nat

datatype run_error = RunIo io_error | RunRules rules_error | RunFakeDns fakedns_error

text \<open>Up to the environment variable of the outbound interface.\<close>

definition default_outbound :: "string \<Rightarrow> env_vars \<Rightarrow> env_vars" where
  "default_outbound iface vars =
     (case vars ''OUTBOUND_INTERFACES'' of None \<Rightarrow> vars(''OUTBOUND_INTERFACES'' \<mapsto> iface) | Some _ \<Rightarrow> vars)"

definition run_routes ::
    "'w run_env \<Rightarrow> string \<Rightarrow> string \<Rightarrow> env_vars \<Rightarrow> 'w \<Rightarrow> (post_tun_setup, run_error) result \<times> env_vars \<times> 'w" where
  "run_routes E destination iface vars w =
     (case post_setup_new (re_plat E) (re_tools E) destination iface w of
        (Ok ps, w1) \<Rightarrow>
          (case route_setup (re_plat E) (re_tools E) ps w1 of
             (Ok _, w2) \<Rightarrow> (Ok ps, default_outbound (ps_default_iface ps) vars, w2)
           | (_, w2) \<Rightarrow> (Panic ''unwrap on Err'', vars, w2))
      | (_, w1) \<Rightarrow> (Panic ''unwrap on Err'', vars, w1))"

definition run_setup ::
    "'w run_env \<Rightarrow> env_vars \<Rightarrow> 'w \<Rightarrow> (post_tun_setup, run_error) result \<times> env_vars \<times> 'w" where
  "run_setup E vars w =
     (case re_destination E of
        Err e \<Rightarrow> (Err (RunIo e), vars, w)
      | Panic m \<Rightarrow> (Panic m, vars, w)
      | Ok destination \<Rightarrow>
        (case re_tun_name E of
           Err e \<Rightarrow> (Err (RunIo e), vars, w)
         | Panic m \<Rightarrow> (Panic m, vars, w)
         | Ok iface \<Rightarrow> run_routes E destination iface vars w))"

text \<open>The network stack and the resolver with its rules.\<close>

definition run_services :: "'w run_env \<Rightarrow> string \<Rightarrow> (fake_dns, run_error) result" where
  "run_services E rule_path =
     (case re_netstack E of
        Err e \<Rightarrow> Err (RunIo e)
      | Panic m \<Rightarrow> Panic m
      | Ok _ \<Rightarrow>
        (case fakedns_new of
           Err e \<Rightarrow> Err (RunFakeDns e)
         | Panic m \<Rightarrow> Panic m
         | Ok fd \<Rightarrow>
           (case parse_rules (re_files E) rule_path of
              Err e \<Rightarrow> Err (RunRules e)
            | Panic m \<Rightarrow> Panic m
            | Ok rs \<Rightarrow> Ok (set_filter fd rs))))"

text \<open>
  The end: the first finished future ends the wait, all of them are dropped and with them the
  device; then the monitor is cancelled and awaited, unless it has ended before.
\<close>

definition run_finish :: "'w run_env \<Rightarrow> mon_out \<times> if_watcher \<times> 'w monitor \<Rightarrow> 'w" where
  "run_finish E mon =
     (case mon of (out, c, m) \<Rightarrow>
        let w = re_close E (mo_world m) in
        (case out of
           MonPending \<Rightarrow>
             (case monitor_poll (re_plat E) (re_tools E) (re_rcv E) (cancel c) (m\<lparr>mo_world := w\<rparr>) of
                (_, _, m') \<Rightarrow> mo_world m')
         | _ \<Rightarrow> w))"

text \<open>
  The whole of \<open>run\<close>, with the answers of the interface watcher and the number of polls of the
  monitor while the tunnel works. An error after the routes were changed returns early: the device
  is closed, and a monitor that was spawned is told to stop but not awaited; it is returned.
\<close>

definition tun_run ::
    "'w run_env \<Rightarrow> string \<Rightarrow> if_event io_result option poll list \<Rightarrow> nat \<Rightarrow> env_vars \<Rightarrow> 'w
     \<Rightarrow> (unit, run_error) result \<times> env_vars \<times> 'w \<times> (if_watcher \<times> 'w monitor) option" where
  "tun_run E rule_path answers polls vars w =
     (case run_setup E vars w of
        (Err e, vars', w1) \<Rightarrow> (Err e, vars', re_close E w1, None)
      | (Panic s, vars', w1) \<Rightarrow> (Panic s, vars', re_close E w1, None)
      | (Ok ps, vars', w1) \<Rightarrow>
        (case re_watcher E of
           Err e \<Rightarrow> (Err (RunIo e), vars', re_close E w1, None)
         | Panic s \<Rightarrow> (Panic s, vars', re_close E w1, None)
         | Ok _ \<Rightarrow>
           (let c = cancelable_new answers; m = monitor_new ps w1 in
            case run_services E rule_path of
              Err e \<Rightarrow> (Err e, vars', re_close E w1, Some (cancel c, m\<lparr>mo_world := re_close E w1\<rparr>))
            | Panic s \<Rightarrow> (Panic s, vars', re_close E w1, Some (cancel c, m\<lparr>mo_world := re_close E w1\<rparr>))
            | Ok _ \<Rightarrow>
              (Ok (), vars', run_finish E (monitor_polls polls (re_plat E) (re_tools E) (re_rcv E) c m), None))))"

text \<open>The program: a device that cannot be made is a panic, the result of \<open>run\<close> is dropped.\<close>

definition rtun_main ::
    "('cfg, 'dev) tun_lib \<Rightarrow> ('dev \<Rightarrow> 'w run_env) \<Rightarrow> options \<Rightarrow> if_event io_result option poll list \<Rightarrow> nat
     \<Rightarrow> env_vars \<Rightarrow> 'w \<Rightarrow> (unit, io_error) result \<times> 'w" where
  "rtun_main B E opts answers polls vars w =
     (case builder_build B (tun_builder_new B opts) of
        Ok device \<Rightarrow>
          (case tun_run (E device) (GFW_RULE_PATH opts) answers polls vars w of
             (Panic s, _, w', _) \<Rightarrow> (Panic s, w')
           | (_, _, w', _) \<Rightarrow> (Ok (), w'))
      | _ \<Rightarrow> (Panic ''unwrap on Err'', w))"

section \<open>What the route commands do\<close>

text \<open>
  The documented behaviour of \<open>ip route\<close> for a host with at most one default route in each of the
  tables \<open>main\<close> and \<open>default\<close>, which \<open>main\<close> and \<open>dflt\<close> read off the world: deleting removes the route,
  adding makes it unless there is one, reading changes nothing, and the tool can be started.
\<close>

definition ip_route_laws :: "'w tools \<Rightarrow> ('w \<Rightarrow> string option) \<Rightarrow> ('w \<Rightarrow> string option) \<Rightarrow> bool" where
  "ip_route_laws T main dflt \<longleftrightarrow>
     (\<forall>w. let w' = snd (run_status T ''ip'' [''route'', ''del'', ''default'', ''table'', ''main''] w) in
        main w' = None \<and> dflt w' = dflt w)
   \<and> (\<forall>w. let w' = snd (run_status T ''ip'' [''route'', ''del'', ''default'', ''table'', ''default''] w) in
        main w' = main w \<and> dflt w' = None)
   \<and> (\<forall>gw w. let w' = snd (run_status T ''ip'' [''route'', ''add'', ''default'', ''via'', gw, ''table'', ''main''] w) in
        main w' = (case main w of None \<Rightarrow> Some gw | Some g \<Rightarrow> Some g) \<and> dflt w' = dflt w)
   \<and> (\<forall>gw dev w. let w' = snd (run_status T ''ip'' [''route'', ''add'', ''default'', ''via'', gw, ''dev'', dev, ''table'', ''default''] w) in
        dflt w' = (case dflt w of None \<Rightarrow> Some gw | Some g \<Rightarrow> Some g) \<and> main w' = main w)
   \<and> (\<forall>args w. fst (run_status T ''ip'' args w) = Ok ())
   \<and> (\<forall>args w. main (snd (run_output T ''ip'' args w)) = main w \<and> dflt (snd (run_output T ''ip'' args w)) = dflt w)"

text \<open>Closing the device removes its routes.\<close>

definition close_laws :: "('w \<Rightarrow> 'w) \<Rightarrow> string \<Rightarrow> ('w \<Rightarrow> string option) \<Rightarrow> ('w \<Rightarrow> string option) \<Rightarrow> bool" where
  "close_laws cl gw main dflt \<longleftrightarrow>
     (\<forall>w. main (cl w) = (if main w = Some gw then None else main w) \<and> dflt (cl w) = dflt w)"

lemma run_expect_ok:
  "fst (run_status T prog args w) = Ok () \<Longrightarrow> run_expect T msg prog args w = (Ok (), snd (run_status T prog args w))"
  by (cases "run_status T prog args w") (simp add: run_expect_def)

lemmas linux_ops = add_default_ipv4_route_def delete_default_ipv4_route_def linux_add_default_ipv4_route_def
  linux_delete_default_ipv4_route_def

lemma route_setup_laws:
  assumes "ip_route_laws T main dflt"
  shows "\<exists>w'. route_setup Linux T ps w = (Ok (), w') \<and> main w' = Some (ps_gw ps)
    \<and> dflt w' = (case dflt w of None \<Rightarrow> Some (ps_default_gw ps) | Some g \<Rightarrow> Some g)"
  using assms by (simp add: ip_route_laws_def route_setup_def cmd_then_def linux_ops run_expect_ok Let_def)

lemma route_unsetup_laws:
  assumes "ip_route_laws T main dflt"
  shows "\<exists>w'. route_unsetup Linux T ps w = (Ok (), w') \<and> dflt w' = None
    \<and> main w' = (case main w of None \<Rightarrow> Some (ps_default_gw ps) | Some g \<Rightarrow> Some g)"
  using assms by (simp add: ip_route_laws_def route_unsetup_def cmd_then_def linux_ops run_expect_ok Let_def)

lemma with_output_keeps:
  assumes "ip_route_laws T main dflt" "with_output T ''ip'' args f w = (r, w')"
  shows "main w' = main w \<and> dflt w' = dflt w"
proof -
  have "w' = snd (run_output T ''ip'' args w)"
    using assms(2) by (cases "run_output T ''ip'' args w") (auto simp: with_output_def split: result.splits)
  with assms(1) show ?thesis by (simp add: ip_route_laws_def)
qed

lemma reading_keeps:
  assumes "ip_route_laws T main dflt"
  shows "get_default_gw_iface Linux T w = (r, w') \<Longrightarrow> main w' = main w \<and> dflt w' = dflt w"
    "get_if_addr Linux T ifc w = (q, w') \<Longrightarrow> main w' = main w \<and> dflt w' = dflt w"
  using with_output_keeps [OF assms]
  by (simp_all add: get_default_gw_iface_def get_if_addr_def linux_get_default_gw_iface_def linux_get_if_addr_def)

lemma post_setup_new_keeps:
  assumes "ip_route_laws T main dflt" "post_setup_new Linux T gw iface w = (r, w')"
  shows "main w' = main w \<and> dflt w' = dflt w"
    "r = Ok ps \<Longrightarrow> ps_gw ps = gw \<and> ps_iface ps = iface"
  using assms(2) reading_keeps [OF assms(1)]
  by (auto simp: post_setup_new_def cmd_then_def split: prod.splits result.splits)

lemma run_setup_laws:
  assumes "ip_route_laws (re_tools E) main dflt" "re_plat E = Linux" "run_setup E vars w = (Ok ps, vars', w1)"
  shows "main w1 = Some (ps_gw ps) \<and> dflt w1 = (case dflt w of None \<Rightarrow> Some (ps_default_gw ps) | Some g \<Rightarrow> Some g)
    \<and> re_destination E = Ok (ps_gw ps)"
proof -
  obtain gw iface w0 where p: "re_destination E = Ok gw" "post_setup_new Linux (re_tools E) gw iface w = (Ok ps, w0)"
    "route_setup Linux (re_tools E) ps w0 = (Ok (), w1)"
    using assms(2,3) by (auto simp: run_setup_def run_routes_def split: result.splits prod.splits)
  from route_setup_laws [OF assms(1), of ps w0] p post_setup_new_keeps [OF assms(1) p(2)] show ?thesis by auto
qed

section \<open>The monitor while the default interface stays up\<close>

text \<open>Answers of the watcher that contain no error, no end and no loss of the given address.\<close>

definition quiet :: "ip_addr \<Rightarrow> if_event io_result option poll list \<Rightarrow> bool" where
  "quiet a answers \<longleftrightarrow>
     (\<forall>x \<in> set answers. x = Pending \<or> (\<exists>ev. x = Ready (Some (Ok ev)) \<and> ev \<noteq> IfDown a))"

lemma quiet_cases:
  assumes "quiet a (cn_inner c)" "\<not> cn_cancelled c"
  obtains c' where "cancelable_poll_next c = (Pending, c')" "quiet a (cn_inner c')" "\<not> cn_cancelled c'"
  | ev c' where "cancelable_poll_next c = (Ready (Some (CResult (Ok ev))), c')" "ev \<noteq> IfDown a"
      "quiet a (cn_inner c')" "\<not> cn_cancelled c'"
proof (cases "cn_inner c")
  case Nil
  with assms that(1) show ?thesis by (simp add: cancelable_poll_next_def poll_inner_def)
next
  case (Cons x xs)
  with assms(1) have xs: "quiet a xs" and x: "x = Pending \<or> (\<exists>ev. x = Ready (Some (Ok ev)) \<and> ev \<noteq> IfDown a)"
    by (simp_all add: quiet_def)
  show ?thesis
  proof (cases x)
    case Pending
    then show ?thesis using that(1) xs assms(2) Cons by (simp add: cancelable_poll_next_def poll_inner_def)
  next
    case (Ready y)
    with x obtain ev where "x = Ready (Some (Ok ev))" "ev \<noteq> IfDown a" by auto
    then show ?thesis using that(2) xs assms(2) Cons by (simp add: cancelable_poll_next_def poll_inner_def)
  qed
qed

lemma monitor_event_quiet:
  "mo_default_iface_up m \<Longrightarrow> ev \<noteq> IfDown (mo_default_ipaddr m) \<Longrightarrow> monitor_event plat T rcv ev m = (Ok (), m)"
  by (auto simp: monitor_event_def monitor_up_def split: if_event.split)

lemma monitor_poll_quiet:
  assumes "quiet (mo_default_ipaddr m) (cn_inner c)" "\<not> cn_cancelled c" "mo_default_iface_up m"
  shows "\<exists>c'. monitor_poll plat T rcv c m = (MonPending, c', m) \<and> quiet (mo_default_ipaddr m) (cn_inner c') \<and> \<not> cn_cancelled c'"
  using assms
proof (induction "length (cn_inner c)" arbitrary: c rule: less_induct)
  case less
  from less.prems(1,2) show ?case
  proof (cases rule: quiet_cases)
    case (1 c')
    then show ?thesis by (subst monitor_poll.simps) simp
  next
    case (2 ev c')
    then show ?thesis
      using less.hyps [OF poll_next_shorter [OF 2(1)]] less.prems(3) monitor_event_quiet [OF less.prems(3) 2(2)]
      by (subst monitor_poll.simps) simp
  qed
qed

lemma monitor_polls_quiet:
  assumes "quiet (mo_default_ipaddr m) (cn_inner c)" "\<not> cn_cancelled c" "mo_default_iface_up m"
  shows "\<exists>c'. monitor_polls n plat T rcv c m = (MonPending, c', m)"
  using assms
proof (induction n arbitrary: c)
  case (Suc n)
  from monitor_poll_quiet [OF Suc.prems, of plat T rcv] Suc.IH Suc.prems(3) show ?case by auto
qed simp

lemma monitor_poll_cancelled:
  "monitor_poll plat T rcv (cancel c) m = (case monitor_end plat T m of (out, m') \<Rightarrow> (out, cancel c, m'))"
proof -
  have "cancelable_poll_next (cancel c) = (Ready (Some Cancelled), cancel c)"
    by (simp add: cancelable_poll_next_def cancel_def wake_task_def)
  then show ?thesis by (subst monitor_poll.simps) simp
qed

lemma monitor_end_laws:
  assumes "ip_route_laws T main dflt"
  shows "\<exists>w'. monitor_end Linux T m = (MonDone, m\<lparr>mo_world := w'\<rparr>) \<and> dflt w' = None
    \<and> main w' = (case main (mo_world m) of None \<Rightarrow> Some (ps_default_gw (mo_setup m)) | Some g \<Rightarrow> Some g)"
  using route_unsetup_laws [OF assms, of "mo_setup m" "mo_world m"] by (auto simp: monitor_end_def)

section \<open>Properties\<close>


text \<open>
  C39: an error of the interface watcher loses the default route. The monitor then ends while the
  tunnel still runs and its attempt to add the old default route fails because the tunnel's is in
  place; when the tunnel ends, that route disappears with the device and nothing restores the old one.
\<close>

theorem watcher_error_loses_route:
  assumes "ip_route_laws (re_tools E) main dflt" "close_laws (re_close E) gw main dflt"
    and "re_plat E = Linux" "re_destination E = Ok gw" "re_watcher E = Ok ()"
    and "run_setup E vars w = (Ok ps, vars', w1)" "run_services E path = Ok fd"
    and "answers = Ready (Some (Err e)) # rest" "0 < polls"
  shows "\<exists>w'. tun_run E path answers polls vars w = (Ok (), vars', w', None) \<and> main w' = None \<and> dflt w' = None"
proof -
  let ?m = "monitor_new ps w1"
  let ?c = "cancelable_new answers"
  obtain w' where w': "monitor_end Linux (re_tools E) ?m = (MonDone, ?m\<lparr>mo_world := w'\<rparr>)" "dflt w' = None"
      "main w' = Some gw"
    using monitor_end_laws [OF assms(1), of ?m] run_setup_laws [OF assms(1,3,6)] assms(4) by (auto simp: monitor_new_def)
  have "cancelable_poll_next ?c = (Ready (Some (CResult (Err e))), ?c\<lparr>cn_inner := rest\<rparr>)"
    by (simp add: cancelable_poll_next_def poll_inner_def cancelable_new_def assms(8))
  then have "monitor_poll Linux (re_tools E) (re_rcv E) ?c ?m = (MonDone, ?c\<lparr>cn_inner := rest\<rparr>, ?m\<lparr>mo_world := w'\<rparr>)"
    using w'(1) by (subst monitor_poll.simps) simp
  then have "run_finish E (monitor_polls polls Linux (re_tools E) (re_rcv E) ?c ?m) = re_close E w'"
    using assms(9) by (cases polls) (simp_all add: run_finish_def)
  moreover have "main (re_close E w') = None" "dflt (re_close E w') = None"
    using w'(2,3) assms(2) by (simp_all add: close_laws_def)
  ultimately show ?thesis using assms(3,5-7) by (simp add: tun_run_def Let_def)
qed


text \<open>
  C40: an error after the routes were changed, of the watcher, the network stack or the rule file,
  ends \<open>run\<close> with the main table left without a default route. When the watcher could not be made
  nothing will restore it; otherwise only the monitor task, which is told to stop but not awaited,
  would. The program drops the error.
\<close>

theorem run_error_loses_route:
  assumes "ip_route_laws (re_tools E) main dflt" "close_laws (re_close E) gw main dflt"
    and "re_plat E = Linux" "re_destination E = Ok gw" "run_setup E vars w = (Ok ps, vars', w1)"
    and "re_watcher E = Err e \<or> re_watcher E = Ok () \<and> run_services E path = Err err"
  shows "\<exists>er w' mon. tun_run E path answers polls vars w = (Err er, vars', w', mon) \<and> main w' = None
    \<and> (re_watcher E = Err e \<longrightarrow> mon = None)
    \<and> (re_watcher E = Ok () \<longrightarrow> (\<exists>c m. mon = Some (c, m) \<and>
        main (mo_world (snd (snd (monitor_poll Linux (re_tools E) (re_rcv E) c m)))) = Some (ps_default_gw ps)))"
proof -
  have closed: "main (re_close E w1) = None"
    using run_setup_laws [OF assms(1,3,5)] assms(2,4) by (simp add: close_laws_def)
  show ?thesis
  proof (cases "re_watcher E = Err e")
    case True
    with closed assms(5) show ?thesis by (simp add: tun_run_def)
  next
    case False
    with assms(6) have ok: "re_watcher E = Ok ()" "run_services E path = Err err" by auto
    let ?m = "monitor_new ps w1\<lparr>mo_world := re_close E w1\<rparr>"
    obtain w' where "monitor_end Linux (re_tools E) ?m = (MonDone, ?m\<lparr>mo_world := w'\<rparr>)"
        "main w' = Some (ps_default_gw ps)"
      using monitor_end_laws [OF assms(1), of ?m] closed by (auto simp: monitor_new_def)
    with ok closed assms(5) show ?thesis by (simp add: tun_run_def Let_def monitor_poll_cancelled)
  qed
qed


section \<open>An example host\<close>

text \<open>
  A host whose world is the gateway of the default route in each of the two tables, with the
  gateway \<open>10.0.0.1\<close> on \<open>eth0\<close> and the tunnel at \<open>192.16.0.1\<close> on \<open>tun200\<close>.
\<close>

type_synonym host = "string option \<times> string option"

definition add_route :: "string \<Rightarrow> string option \<Rightarrow> string option" where
  "add_route gw r = (case r of None \<Rightarrow> Some gw | Some g \<Rightarrow> Some g)"

definition host_route :: "string list \<Rightarrow> host \<Rightarrow> host" where
  "host_route args h =
     (if args = [''route'', ''del'', ''default'', ''table'', ''main''] then (None, snd h)
      else if args = [''route'', ''del'', ''default'', ''table'', ''default''] then (fst h, None)
      else if length args = 7 then (add_route (args ! 4) (fst h), snd h)
      else if length args = 9 then (fst h, add_route (args ! 4) (snd h))
      else h)"

definition host_output :: "string list \<Rightarrow> host \<Rightarrow> string" where
  "host_output args h =
     (if args = [''route'', ''get'', ''1''] then
        (if fst h = Some ''192.16.0.1'' then ''1.0.0.0 via 192.16.0.1 dev tun200 src''
         else if fst h = Some ''10.0.0.1'' then ''1.0.0.0 via 10.0.0.1 dev eth0 src'' else [])
      else '' inet 10.0.0.5/24'')"

definition host_tools :: "host tools" where
  "host_tools = \<lparr>run_output = (\<lambda>prog args h. (Ok (host_output args h), h)),
     run_status = (\<lambda>prog args h. (Ok (), host_route args h))\<rparr>"

definition host_close :: "host \<Rightarrow> host" where
  "host_close h = (if fst h = Some ''192.16.0.1'' then (None, snd h) else h)"

definition host_env :: "unit io_result \<Rightarrow> host run_env" where
  "host_env watcher = \<lparr>re_plat = Linux, re_tools = host_tools, re_destination = Ok ''192.16.0.1'', re_tun_name = Ok ''tun200'',
     re_watcher = watcher, re_netstack = Ok (), re_files = (\<lambda>_. Content ''google''), re_close = host_close, re_rcv = 2\<rparr>"

definition host_setup :: post_tun_setup where
  "host_setup = \<lparr>ps_gw = ''192.16.0.1'', ps_iface = ''tun200'', ps_default_gw = ''10.0.0.1'', ps_default_iface = ''eth0'',
     ps_default_iface_addr = V4Addr (Ipv4Addr 10 0 0 5)\<rparr>"

lemma host_laws: "ip_route_laws host_tools fst snd"
  by (simp add: ip_route_laws_def host_tools_def host_route_def add_route_def)

lemma host_close_laws: "close_laws host_close ''192.16.0.1'' fst snd"
  by (simp add: close_laws_def host_close_def)

lemma host_addr: "get_if_addr Linux host_tools ifc h = (Ok (V4Addr (Ipv4Addr 10 0 0 5)), h)"
proof -
  have "lines '' inet 10.0.0.5/24'' = ['' inet 10.0.0.5/24'']" by (simp add: lines_def strip_cr_def)
  then have "read_lines '' inet 10.0.0.5/24'' = [Ok '' inet 10.0.0.5/24'']"
    by (simp add: read_lines_def utf8_str_def)
  moreover have "linux_addr_line '' inet 10.0.0.5/24'' [] = Ok ''10.0.0.5''"
    by (simp add: linux_addr_line_def split_whitespace_def is_ws_def)
  moreover have "parse_ip_addr ''10.0.0.5'' = Some (V4Addr (Ipv4Addr 10 0 0 5))"
    by (simp add: parse_ip_addr_def parse_with_def read_ip_addr_def parser_ipv4_def read_octet_def read_separator_def
        read_number_def to_digit_def)
  ultimately show ?thesis
    by (simp add: get_if_addr_def linux_get_if_addr_def with_output_def host_tools_def host_output_def parse_addr_def)
qed

lemma host_gateway: "get_default_gw_iface Linux host_tools (Some ''10.0.0.1'', d) = (Ok (''10.0.0.1'', ''eth0''), Some ''10.0.0.1'', d)"
proof -
  let ?l = "''1.0.0.0 via 10.0.0.1 dev eth0 src''"
  have "lines ?l = [?l]" by (simp add: lines_def strip_cr_def)
  then have "read_lines ?l = [Ok ?l]" by (simp add: read_lines_def utf8_str_def)
  moreover have "linux_gw_line ?l ([], []) = Ok (''10.0.0.1'', ''eth0'')"
    by (simp add: linux_gw_line_def split_whitespace_def is_ws_def index_word_def)
  ultimately show ?thesis
    by (simp add: get_default_gw_iface_def linux_get_default_gw_iface_def with_output_def host_tools_def host_output_def)
qed

lemma host_run_setup:
  "run_setup (host_env watcher) vars (Some ''10.0.0.1'', None) =
     (Ok host_setup, default_outbound ''eth0'' vars, Some ''192.16.0.1'', Some ''10.0.0.1'')"
proof -
  have "post_setup_new Linux host_tools ''192.16.0.1'' ''tun200'' (Some ''10.0.0.1'', None) = (Ok host_setup, Some ''10.0.0.1'', None)"
    by (simp add: post_setup_new_def cmd_then_def host_gateway host_addr host_setup_def)
  moreover have "route_setup Linux host_tools host_setup (Some ''10.0.0.1'', None) = (Ok (), Some ''192.16.0.1'', Some ''10.0.0.1'')"
    by (simp add: route_setup_def cmd_then_def linux_ops run_expect_def host_tools_def host_route_def add_route_def host_setup_def)
  ultimately show ?thesis
    by (simp add: run_setup_def run_routes_def host_env_def host_setup_def)
qed

lemma host_services: "\<exists>fd. run_services (host_env watcher) ''gfw.txt'' = Ok fd"
proof -
  have "parse_rules (\<lambda>_. Content ''google'') ''gfw.txt'' = Ok [trim ''google'']"
    by (simp add: parse_rules_content lines_def strip_cr_def utf8_str_def)
  then show ?thesis by (simp add: run_services_def host_env_def fakedns_new_Ok)
qed

lemmas host_facts = host_laws host_close_laws host_run_setup host_setup_def host_env_def


theorem watcher_error_loses_route_witness:
  "\<exists>w'. tun_run (host_env (Ok ())) ''gfw.txt'' [Ready (Some (Err invalid_utf8))] 1 Map.empty
      (Some ''10.0.0.1'', None) = (Ok (), [''OUTBOUND_INTERFACES'' \<mapsto> ''eth0''], w', None) \<and> fst w' = None"
proof -
  obtain fd where fd: "run_services (host_env (Ok ())) ''gfw.txt'' = Ok fd" using host_services by blast
  show ?thesis
    using watcher_error_loses_route [OF _ _ _ _ _ host_run_setup [of "Ok ()" Map.empty] fd refl, of fst snd "''192.16.0.1''" 1 invalid_utf8 "[]"]
    by (simp add: host_laws host_close_laws host_env_def default_outbound_def)
qed


theorem run_error_loses_route_witness:
  "\<exists>er w' mon. tun_run (host_env (Err invalid_utf8)) ''gfw.txt'' [] 0 Map.empty (Some ''10.0.0.1'', None) =
     (Err er, [''OUTBOUND_INTERFACES'' \<mapsto> ''eth0''], w', mon) \<and> fst w' = None \<and> mon = None"
proof -
  have "re_watcher (host_env (Err invalid_utf8)) = Err invalid_utf8" by (simp add: host_env_def)
  then show ?thesis
    using run_error_loses_route [OF _ _ _ _ host_run_setup [of "Err invalid_utf8" Map.empty], of fst snd "''192.16.0.1''" invalid_utf8
        "''gfw.txt''" _ "[]" 0]
    by (auto simp: host_laws host_close_laws host_env_def default_outbound_def)
qed

text \<open>The monitor of the example host after it lost the address of its interface.\<close>

definition lost_monitor :: "host monitor" where
  "lost_monitor = (monitor_new host_setup (Some ''192.16.0.1'', Some ''10.0.0.1''))\<lparr>mo_default_iface_up := False, mo_notified := 1\<rparr>"

lemma host_tunnel_line:
  assumes "fst h = Some ''192.16.0.1''"
  shows "\<exists>out extra. run_output host_tools ''ip'' [''route'', ''get'', ''1''] h = (Ok out, h) \<and> list_all utf8_str (lines out)
    \<and> lines out = [''1.0.0.0 via '' @ ''192.16.0.1'' @ '' dev '' @ ''tun200'' @ '' '' @ extra]"
  using assms
  by (intro exI [of _ "''1.0.0.0 via 192.16.0.1 dev tun200 src''"] exI [of _ "''src''"])
    (simp add: host_tools_def host_output_def lines_def strip_cr_def utf8_str_def)


section \<open>Packets\<close>

text \<open>
  Packets pass between the device and the network stack unchanged and in order: what was sent is
  the longest run of packets before the first error of the source or of the sink.
\<close>

theorem forward_in_order:
  "\<exists>n. forward sink k items = map (\<lambda>i. case i of Ok p \<Rightarrow> p) (take n items)
    \<and> (\<forall>j < n. \<exists>p. items ! j = Ok p \<and> sink (k + j) = Ok ()) \<and> n \<le> length items
    \<and> (n = length items \<or> (\<nexists>p. items ! n = Ok p) \<or> sink (k + n) \<noteq> Ok ())"
proof (induction items arbitrary: k)
  case (Cons i items)
  show ?case
  proof (cases "(\<exists>p. i = Ok p) \<and> sink k = Ok ()")
    case True
    then obtain p where p: "i = Ok p" "sink k = Ok ()" by blast
    obtain n where n: "forward sink (Suc k) items = map (\<lambda>i. case i of Ok p \<Rightarrow> p) (take n items)"
      "\<forall>j < n. \<exists>p. items ! j = Ok p \<and> sink (Suc k + j) = Ok ()" "n \<le> length items"
      "n = length items \<or> (\<nexists>p. items ! n = Ok p) \<or> sink (Suc k + n) \<noteq> Ok ()"
      using Cons.IH [of "Suc k"] by blast
    have "\<forall>j < Suc n. \<exists>p. (i # items) ! j = Ok p \<and> sink (k + j) = Ok ()"
      using n(2) p by (auto simp: less_Suc_eq_0_disj)
    with n p show ?thesis by (intro exI [of _ "Suc n"]) simp
  next
    case False
    then show ?thesis by (intro exI [of _ 0]) (auto split: result.split)
  qed
qed simp

theorem forward_in_order_witness:
  "\<exists>n. forward (\<lambda>k. if k < 2 then Ok () else Err invalid_utf8) 0 [Ok (1 :: nat), Ok 2, Ok 3] =
     map (\<lambda>i. case i of Ok p \<Rightarrow> p) (take n [Ok 1, Ok 2, Ok 3 :: nat io_result])"
  by (rule exE [OF forward_in_order [of "\<lambda>k. if k < 2 then Ok () else Err invalid_utf8" 0 "[Ok (1 :: nat), Ok 2, Ok 3]"]],
      rule exI, erule conjunct1)

end
