(* ===== verification/Power_Notify.thy ===== *)
theory Power_Notify
  imports Rtun_Prelude
begin

text \<open>
  \<open>crates/tun/src/power.rs\<close>: \<open>PowerNotify\<close> runs a callback when a Mac is about to sleep. \<open>new\<close> starts a
  thread that moves the callback to the heap, registers it with the system, sends the handle of its
  run loop back and runs the loop; dropping the value stops the loop. Two threads and the system
  act, so the model is a step relation. The functions of the system are not part of the repository:
  of them only what the code passes and gets matters, the port of the registration, the references
  to the run loop that were taken and given back, whether the source is in the loop, and that a run
  loop returns only after it was asked to stop. \<open>pn_freed_use\<close> records a call of the callback after its box was
  freed or before it was made.
\<close>

section \<open>The thread and its creator\<close>

definition kIOMessageSystemWillSleep :: u32 where
  "kIOMessageSystemWillSleep = 0xe0000280"

datatype loop_thread = ThreadStart | ThreadRegistered | ThreadSent | ThreadRunning | ThreadStopped | ThreadEnded
datatype creator = Receiving | Returned | Panicked | Dropped

record power_notify =
  pn_thread :: loop_thread
  pn_creator :: creator
  pn_callback :: bool
  pn_registered :: bool
  pn_retains :: nat
  pn_source :: bool
  pn_channel :: bool
  pn_stop :: bool
  pn_calls :: nat
  pn_freed_use :: bool

definition power_new :: power_notify where
  "power_new = \<lparr>pn_thread = ThreadStart, pn_creator = Receiving, pn_callback = False, pn_registered = False, pn_retains = 0,
     pn_source = False, pn_channel = False, pn_stop = False, pn_calls = 0, pn_freed_use = False\<rparr>"

text \<open>\<open>power_callback\<close> called by the system with a message.\<close>

definition power_callback :: "u32 \<Rightarrow> power_notify \<Rightarrow> power_notify" where
  "power_callback message_type s =
     (if message_type = kIOMessageSystemWillSleep then
        (if pn_callback s then s\<lparr>pn_calls := pn_calls s + 1\<rparr> else s\<lparr>pn_freed_use := True\<rparr>)
      else s)"

text \<open>The thread up to the registration: the box, the retained run loop, and the port.\<close>

definition power_register :: "u32 \<Rightarrow> power_notify \<Rightarrow> power_notify" where
  "power_register port s =
     (let s1 = s\<lparr>pn_callback := True, pn_retains := pn_retains s + 1\<rparr> in
      if port = 0 then s1\<lparr>pn_retains := pn_retains s1 - 1, pn_thread := ThreadEnded\<rparr>
      else s1\<lparr>pn_registered := True, pn_thread := ThreadRegistered\<rparr>)"

definition power_send :: "power_notify \<Rightarrow> power_notify" where
  "power_send s = s\<lparr>pn_channel := True, pn_thread := ThreadSent\<rparr>"

definition power_run :: "power_notify \<Rightarrow> power_notify" where
  "power_run s = s\<lparr>pn_source := True, pn_thread := ThreadRunning\<rparr>"

text \<open>
  After the run loop returned: the box is owned again, the source is taken out, and at the end of
  the closure the box is freed.
\<close>

definition power_unregister :: "power_notify \<Rightarrow> power_notify" where
  "power_unregister s = s\<lparr>pn_source := False, pn_thread := ThreadStopped\<rparr>"

definition power_free :: "power_notify \<Rightarrow> power_notify" where
  "power_free s = s\<lparr>pn_callback := False, pn_thread := ThreadEnded\<rparr>"

text \<open>
  The steps. The system delivers a message only from inside the running loop; a loop that was
  asked to stop may return; the creator receives the handle, or panics when the thread ended without
  sending one; dropping the value asks the loop to stop.
\<close>

datatype power_action = PRegister u32 | PSend | PRun | PMessage u32 | PReturn | PFree | PReceive | PFail | PDrop

inductive power_step :: "power_notify \<Rightarrow> power_action \<Rightarrow> power_notify \<Rightarrow> bool" where
  register: "pn_thread s = ThreadStart \<Longrightarrow> power_step s (PRegister port) (power_register port s)"
| send: "pn_thread s = ThreadRegistered \<Longrightarrow> power_step s PSend (power_send s)"
| run: "pn_thread s = ThreadSent \<Longrightarrow> power_step s PRun (power_run s)"
| message: "pn_thread s = ThreadRunning \<Longrightarrow> pn_source s \<Longrightarrow> power_step s (PMessage t) (power_callback t s)"
| loop_returns: "pn_thread s = ThreadRunning \<Longrightarrow> pn_stop s \<Longrightarrow> power_step s PReturn (power_unregister s)"
| free: "pn_thread s = ThreadStopped \<Longrightarrow> power_step s PFree (power_free s)"
| receive: "pn_creator s = Receiving \<Longrightarrow> pn_channel s \<Longrightarrow> power_step s PReceive (s\<lparr>pn_creator := Returned\<rparr>)"
| fail: "pn_creator s = Receiving \<Longrightarrow> \<not> pn_channel s \<Longrightarrow> pn_thread s = ThreadEnded \<Longrightarrow>
    power_step s PFail (s\<lparr>pn_creator := Panicked\<rparr>)"
| drop: "pn_creator s = Returned \<Longrightarrow> power_step s PDrop (s\<lparr>pn_creator := Dropped, pn_stop := True\<rparr>)"

inductive_cases power_stepE: "power_step s a t"

section \<open>Invariant\<close>

text \<open>
  The callback lives from the registration until the loop has returned; the handle is sent exactly
  by threads that registered; the reference to the run loop is given back only on the failed path;
  a thread that ended without sending never registered.
\<close>

definition power_inv :: "power_notify \<Rightarrow> bool" where
  "power_inv s \<longleftrightarrow> \<not> pn_freed_use s
   \<and> (case pn_thread s of
        ThreadStart \<Rightarrow> \<not> pn_callback s \<and> \<not> pn_registered s \<and> pn_retains s = 0 \<and> \<not> pn_channel s
      | ThreadRegistered \<Rightarrow> pn_callback s \<and> pn_registered s \<and> pn_retains s = 1 \<and> \<not> pn_channel s
      | ThreadSent \<Rightarrow> pn_callback s \<and> pn_registered s \<and> pn_retains s = 1 \<and> pn_channel s
      | ThreadRunning \<Rightarrow> pn_callback s \<and> pn_registered s \<and> pn_retains s = 1 \<and> pn_channel s
      | ThreadStopped \<Rightarrow> pn_callback s \<and> pn_registered s \<and> pn_retains s = 1 \<and> pn_channel s \<and> \<not> pn_source s
      | ThreadEnded \<Rightarrow>
          if pn_registered s then \<not> pn_callback s \<and> pn_retains s = 1 \<and> pn_channel s \<and> \<not> pn_source s
          else pn_callback s \<and> pn_retains s = 0 \<and> \<not> pn_channel s)
   \<and> (pn_creator s \<in> {Returned, Dropped} \<longrightarrow> pn_channel s) \<and> (pn_stop s \<longleftrightarrow> pn_creator s = Dropped)"

lemma power_step_inv: "power_inv s \<Longrightarrow> power_step s a t \<Longrightarrow> power_inv t"
  by (erule power_stepE)
    (auto simp: power_inv_def power_register_def power_send_def power_run_def power_callback_def power_free_def
      power_unregister_def Let_def split: loop_thread.splits if_splits)

interpretation power: invariant_system power_new power_step power_inv
proof
  show "power_inv power_new" by (simp add: power_inv_def power_new_def)
qed (rule power_step_inv)

section \<open>Properties\<close>

text \<open>
  The callback is never used before it was made or after it was freed, in any interleaving of the
  two threads and the system; and when the thread has ended, the box is freed and the source removed
  if the registration succeeded, while the reference to the run loop is still held. When the
  registration failed, the box is leaked and the creator can only panic.
\<close>

theorem power_callback_safe:
  assumes "reachable power_new power_step s"
  shows "\<not> pn_freed_use s
    \<and> (pn_thread s = ThreadEnded \<and> pn_registered s \<longrightarrow> \<not> pn_callback s \<and> \<not> pn_source s \<and> pn_retains s = 1)
    \<and> (pn_thread s = ThreadEnded \<and> \<not> pn_registered s \<longrightarrow> pn_callback s \<and> pn_retains s = 0
        \<and> pn_creator s \<in> {Receiving, Panicked})"
  using power.invar_reachable [OF assms] by (cases "pn_creator s") (auto simp: power_inv_def split: if_splits)

theorem power_callback_safe_witness:
  "\<exists>s. reachable power_new power_step s \<and> pn_thread s = ThreadEnded \<and> pn_calls s = 1 \<and> pn_retains s = 1 \<and> \<not> pn_freed_use s"
proof -
  let ?s1 = "power_register 7 power_new"
  let ?s2 = "power_run (power_send ?s1)"
  let ?s3 = "power_callback kIOMessageSystemWillSleep ?s2"
  let ?s4 = "?s3\<lparr>pn_creator := Returned\<rparr>"
  let ?s5 = "?s4\<lparr>pn_creator := Dropped, pn_stop := True\<rparr>"
  let ?s6 = "power_free (power_unregister ?s5)"
  note defs = power_new_def power_register_def power_send_def power_run_def power_callback_def power_free_def power_unregister_def Let_def
  have "power_step power_new (PRegister 7) ?s1" "power_step ?s1 PSend (power_send ?s1)" "power_step (power_send ?s1) PRun ?s2"
    "power_step ?s2 (PMessage kIOMessageSystemWillSleep) ?s3" "power_step ?s3 PReceive ?s4" "power_step ?s4 PDrop ?s5"
    "power_step ?s5 PReturn (power_unregister ?s5)" "power_step (power_unregister ?s5) PFree ?s6"
    by (rule register send run message receive drop loop_returns free; simp add: defs)+
  then have r: "reachable power_new power_step ?s6" by (meson reach_init reach_step)
  have "pn_thread ?s6 = ThreadEnded" "pn_registered ?s6" "pn_calls ?s6 = 1" by (simp_all add: defs)
  with r power_callback_safe [OF r] show ?thesis by (intro exI [of _ ?s6]) blast
qed

end
